theory Spec2Isabelle
  imports Main "HOL-Library.Sublist"
begin

section \<open>Python strings\<close>

text \<open>
  Identifiers, endpoints and e-mail addresses are Python \<open>str\<close> values; they are modelled as
  \<open>string\<close> (ASCII text).  \<open>str.strip()\<close> removes the ASCII whitespace characters from both
  ends: tab, line feed, vertical tab, form feed, carriage return, the four separators
  0x1C..0x1F and the space.
\<close>

definition is_space :: "char \<Rightarrow> bool" where
  "is_space c = (let n = (of_char c :: nat) in (9 \<le> n \<and> n \<le> 13) \<or> (28 \<le> n \<and> n \<le> 32))"

definition strip :: "string \<Rightarrow> string" where
  "strip s = rev (dropWhile is_space (rev (dropWhile is_space s)))"

text \<open>\<open>s.strip('/')\<close>: the given character is removed from both ends.\<close>

definition strip_chars :: "char \<Rightarrow> string \<Rightarrow> string" where
  "strip_chars c s = rev (dropWhile (\<lambda>x. x = c) (rev (dropWhile (\<lambda>x. x = c) s)))"

text \<open>
  \<open>s.split(sep)\<close> for a one-character separator: the pieces between the occurrences of the
  separator, empty pieces included; the empty string gives one empty piece.
\<close>

fun py_split :: "char \<Rightarrow> string \<Rightarrow> string list" where
  "py_split c [] = [[]]"
| "py_split c (x # xs) =
     (if x = c then [] # py_split c xs
      else (case py_split c xs of
              [] \<Rightarrow> [[x]]
            | p # ps \<Rightarrow> (x # p) # ps))"

section \<open>The errors of the program\<close>

text \<open>
  Every exception the code can raise is a value.  \<open>GitHubAPIError\<close> carries which of the four
  messages of \<open>_make_request\<close> it was built with: \<open>Repository not found: <endpoint>\<close>,
  \<open>Access forbidden: <endpoint>\<close>, \<open>HTTP error <status>: ...\<close> and \<open>Request failed: ...\<close>.
  \<open>RateLimitError\<close> (a subclass of \<open>GitHubAPIError\<close> in the source) carries the number of seconds
  that its message \<open>Rate limit exceeded. Try again in <wait_time> seconds.\<close> is built from.
\<close>

datatype api_failure =
    NotFound string
  | Forbidden string
  | HTTPStatus int
  | RequestFailed

datatype error =
    ValueError string
  | KeyError string
  | TypeError
  | AttributeError
  | ValidationError
  | GitHubAPIError api_failure
  | RateLimitError int

section \<open>Resolving the repository identifier\<close>

text \<open>
  \<open>urllib.parse.urlparse\<close>, as far as \<open>_parse_repo_identifier\<close> uses it: the \<open>netloc\<close> and the
  \<open>path\<close> of a string that starts with \<open>http://\<close> or \<open>https://\<close>.  The library removes tab,
  carriage return and line feed first; the netloc runs from behind \<open>scheme://\<close> to the first of
  \<open>/\<close>, \<open>?\<close>, \<open>#\<close>; the path runs from there to the first \<open>?\<close> or \<open>#\<close>; and for these two
  schemes the parameters (from the first \<open>;\<close> of the last path segment on) are cut off the path.
  The library's own \<open>ValueError\<close> for a netloc with square brackets is left out: such a netloc
  is not \<open>github.com\<close>, and the caller sees a \<open>ValueError\<close> either way.
\<close>

definition cut_params :: "string \<Rightarrow> string" where
  "cut_params url =
     (let r = rev url;
          front = rev (dropWhile (\<lambda>c. c \<noteq> CHR ''/'') r);
          seg = rev (takeWhile (\<lambda>c. c \<noteq> CHR ''/'') r)
      in front @ takeWhile (\<lambda>c. c \<noteq> CHR '';'') seg)"

definition urlparse :: "string \<Rightarrow> string \<times> string" where
  "urlparse url0 =
     (let url = filter (\<lambda>c. c \<noteq> CHR 0x09 \<and> c \<noteq> CHR 0x0D \<and> c \<noteq> CHR 0x0A) url0;
          rest = drop 3 (dropWhile (\<lambda>c. c \<noteq> CHR '':'') url);
          netloc = takeWhile (\<lambda>c. c \<noteq> CHR ''/'' \<and> c \<noteq> CHR ''?'' \<and> c \<noteq> CHR ''#'') rest;
          tail = dropWhile (\<lambda>c. c \<noteq> CHR ''/'' \<and> c \<noteq> CHR ''?'' \<and> c \<noteq> CHR ''#'') rest;
          path = takeWhile (\<lambda>c. c \<noteq> CHR ''?'' \<and> c \<noteq> CHR ''#'') tail
      in (netloc, cut_params path))"

text \<open>The four messages of \<open>_parse_repo_identifier\<close>.\<close>

definition msg_unsupported_host :: string where
  "msg_unsupported_host = ''Only GitHub repositories are supported''"

definition msg_invalid_url :: string where
  "msg_invalid_url = ''Invalid GitHub repository URL''"

definition msg_invalid_format :: string where
  "msg_invalid_format = ''Invalid repository format. Use '' @ [CHR 0x27] @ ''owner/repo'' @ [CHR 0x27]"

definition msg_invalid_identifier :: string where
  "msg_invalid_identifier =
     ''Invalid repository identifier. Use GitHub URL or '' @ [CHR 0x27] @ ''owner/repo'' @ [CHR 0x27] @ '' format''"

definition is_http_url :: "string \<Rightarrow> bool" where
  "is_http_url s = (prefix ''http://'' s \<or> prefix ''https://'' s)"

definition parse_repo_identifier :: "string \<Rightarrow> error + (string \<times> string)" where
  "parse_repo_identifier repo_identifier0 =
     (let repo_identifier = strip repo_identifier0 in
      if is_http_url repo_identifier then
        (let (netloc, path) = urlparse repo_identifier in
         if netloc \<noteq> ''github.com'' then Inl (ValueError msg_unsupported_host)
         else
           (let path_parts = py_split CHR ''/'' (strip_chars CHR ''/'' path) in
            if length path_parts < 2 then Inl (ValueError msg_invalid_url)
            else Inr (path_parts ! 0, path_parts ! 1)))
      else if CHR ''/'' \<in> set repo_identifier then
        (let parts = py_split CHR ''/'' repo_identifier in
         if length parts \<noteq> 2 then Inl (ValueError msg_invalid_format)
         else Inr (parts ! 0, parts ! 1))
      else Inl (ValueError msg_invalid_identifier))"


definition plain_name :: "string \<Rightarrow> bool" where
  "plain_name s = (s \<noteq> [] \<and>
     list_all (\<lambda>c. \<not> is_space c \<and> c \<noteq> CHR ''/'' \<and> c \<noteq> CHR ''?'' \<and> c \<noteq> CHR ''#'' \<and> c \<noteq> CHR '';'') s)"


section \<open>JSON values and the Python operations on them\<close>

text \<open>
  A decoded response body.  GitHub's payloads carry no fractional numbers in the places this
  program reads, so numbers are integers; an object is the list of its bindings (the keys
  of a decoded object are distinct), looked up by key.
\<close>

datatype json =
    JNull
  | JBool bool
  | JInt int
  | JStr string
  | JList "json list"
  | JDict "(string \<times> json) list"

text \<open>Python's truth value of an object: \<open>if data\<close>, \<open>not email\<close>, \<open>if max_count\<close>.\<close>

fun truthy :: "json \<Rightarrow> bool" where
  "truthy JNull = False"
| "truthy (JBool b) = b"
| "truthy (JInt i) = (i \<noteq> 0)"
| "truthy (JStr s) = (s \<noteq> [])"
| "truthy (JList xs) = (xs \<noteq> [])"
| "truthy (JDict kvs) = (kvs \<noteq> [])"

text \<open>\<open>d.get(key, default)\<close>: only a dictionary has the method.\<close>

fun py_get :: "json \<Rightarrow> string \<Rightarrow> json \<Rightarrow> error + json" where
  "py_get (JDict kvs) key dflt = Inr (case map_of kvs key of None \<Rightarrow> dflt | Some v \<Rightarrow> v)"
| "py_get _ key dflt = Inl AttributeError"

text \<open>\<open>d[key]\<close> with a string key: \<open>KeyError\<close> on a dictionary without the key, \<open>TypeError\<close> on
  every other object.\<close>

fun py_index :: "json \<Rightarrow> string \<Rightarrow> error + json" where
  "py_index (JDict kvs) key = (case map_of kvs key of None \<Rightarrow> Inl (KeyError key) | Some v \<Rightarrow> Inr v)"
| "py_index _ key = Inl TypeError"

text \<open>\<open>for x in data\<close>: a list gives its items, a dictionary its keys, a string its
  characters; \<open>None\<close>, a number and a boolean are not iterable.\<close>

fun py_iter :: "json \<Rightarrow> error + json list" where
  "py_iter (JList xs) = Inr xs"
| "py_iter (JDict kvs) = Inr (map (\<lambda>kv. JStr (fst kv)) kvs)"
| "py_iter (JStr s) = Inr (map (\<lambda>ch. JStr [ch]) s)"
| "py_iter _ = Inl TypeError"

text \<open>\<open>repos[:3]\<close>: the first three items of a list, the first three characters of a string
  (a string again, iterated by character); every other object raises.\<close>

fun py_slice3 :: "json \<Rightarrow> error + json list" where
  "py_slice3 (JList xs) = Inr (take 3 xs)"
| "py_slice3 (JStr s) = Inr (map (\<lambda>ch. JStr [ch]) (take 3 s))"
| "py_slice3 _ = Inl TypeError"

text \<open>\<open>xs[:n]\<close> on a list, for any integer \<open>n\<close>: a negative \<open>n\<close> counts from the end.\<close>

definition py_take :: "int \<Rightarrow> 'a list \<Rightarrow> 'a list" where
  "py_take n xs = (if 0 \<le> n then take (nat n) xs else take (nat (int (length xs) + n)) xs)"

text \<open>Sequencing: the first exception raised is the one that propagates.\<close>

definition err_bind :: "error + 'a \<Rightarrow> ('a \<Rightarrow> error + 'b) \<Rightarrow> error + 'b" where
  "err_bind m f = (case m of Inl e \<Rightarrow> Inl e | Inr v \<Rightarrow> f v)"

text \<open>The keyword arguments of a constructor call are evaluated from left to right; the
  call happens only if none of them raised.\<close>

fun kwargs :: "(string \<times> (error + json)) list \<Rightarrow> error + (string \<times> json) list" where
  "kwargs [] = Inr []"
| "kwargs ((k, Inl e) # rest) = Inl e"
| "kwargs ((k, Inr v) # rest) = (case kwargs rest of Inl e \<Rightarrow> Inl e | Inr kvs \<Rightarrow> Inr ((k, v) # kvs))"

text \<open>A \<open>for\<close> loop that returns from the function at the first item that yields a result,
  and at the first exception.\<close>

fun first_some :: "('a \<Rightarrow> error + 'b option) \<Rightarrow> 'a list \<Rightarrow> error + 'b option" where
  "first_some f [] = Inr None"
| "first_some f (x # xs) =
     (case f x of
        Inl e \<Rightarrow> Inl e
      | Inr (Some r) \<Rightarrow> Inr (Some r)
      | Inr None \<Rightarrow> first_some f xs)"

text \<open>
  \<open>int(s)\<close> on a header value: surrounding whitespace, an optional sign, decimal digits with
  single underscores between them; anything else is a \<open>ValueError\<close>.
\<close>

definition is_digit :: "char \<Rightarrow> bool" where
  "is_digit ch = (let n = (of_char ch :: nat) in 48 \<le> n \<and> n \<le> 57)"

fun digits_ok :: "string \<Rightarrow> bool" where
  "digits_ok [] = False"
| "digits_ok [ch] = is_digit ch"
| "digits_ok (ch # d # r) =
     (is_digit ch \<and> (if d = CHR ''_'' then r \<noteq> [] \<and> digits_ok r else digits_ok (d # r)))"

definition digits_value :: "string \<Rightarrow> int" where
  "digits_value ds = foldl (\<lambda>a ch. 10 * a + (int (of_char ch) - 48)) 0 (filter is_digit ds)"

definition py_int :: "string \<Rightarrow> error + int" where
  "py_int s =
     (let t = strip s;
          neg = (t \<noteq> [] \<and> hd t = CHR ''-'');
          ds = (if t \<noteq> [] \<and> (hd t = CHR ''-'' \<or> hd t = CHR ''+'') then tl t else t)
      in if digits_ok ds then Inr (if neg then - digits_value ds else digits_value ds)
         else Inl (ValueError ''invalid literal for int() with base 10''))"

section \<open>The world outside the program\<close>

text \<open>
  A request is what \<open>_make_request\<close> hands to \<open>session.get\<close>: the endpoint (appended to the fixed
  base URL) and the query parameters; the fixed headers and the timeout are left out.  The
  reply is what \<open>session.get\<close> gives back, after the retry layer the session was mounted with,
  which belongs to the HTTP library: a response (status code, headers, and the body as
  \<open>response.json()\<close> decodes it, \<open>None\<close> when it is not JSON), or a
  \<open>requests.exceptions.RequestException\<close> (connection error, timeout, retries exhausted).
  Header names are looked up as they are spelled.
\<close>

record request =
  req_endpoint :: string
  req_params :: "(string \<times> json) list"

record response =
  status_code :: int
  headers :: "(string \<times> string) list"
  json_body :: "json option"

datatype reply = Response response | RequestException

typedecl datetime

text \<open>
  Everything the program does not define is a parameter: the server behind the session, as
  a transition function on an arbitrary state of the world; the clock \<open>int(time.time())\<close>; the
  way the model classes (pydantic) coerce a value that is not already of the declared type
  (\<open>None\<close> when they reject it), and read a timestamp; and the text an f-string gives for a
  value that is not a string.
\<close>

record 'w env =
  session_get :: "'w \<Rightarrow> request \<Rightarrow> reply \<times> 'w"
  time_now :: "'w \<Rightarrow> int"
  coerce_str :: "json \<Rightarrow> string option"
  coerce_int :: "json \<Rightarrow> int option"
  parse_datetime :: "json \<Rightarrow> datetime option"
  py_repr :: "json \<Rightarrow> string"

text \<open>
  The state threaded through the client: the world, and the log of the calls made, one
  entry for every call of \<open>session.get\<close>, with what \<open>_make_request\<close> made of the reply.
\<close>

record 'w client =
  world :: 'w
  calls :: "(request \<times> (error + json)) list"

section \<open>Transport: \<open>GitHubClient._make_request\<close>\<close>

text \<open>
  One call of \<open>session.get\<close>, then the classification of the reply.  The \<open>ValueError\<close> of
  \<open>int(...)\<close> on a malformed \<open>X-RateLimit-Reset\<close> header is caught by neither \<open>except\<close> clause and
  propagates.  A body that is not JSON raises \<open>requests.exceptions.JSONDecodeError\<close>, a
  \<open>RequestException\<close>, hence \<open>Request failed\<close>.  The pause \<open>time.sleep(0.1)\<close> after a success has
  no effect on any value and is left out.
\<close>

definition rate_limit_reset :: "response \<Rightarrow> error + int" where
  "rate_limit_reset r =
     (case map_of (headers r) ''X-RateLimit-Reset'' of
        None \<Rightarrow> Inr 0
      | Some h \<Rightarrow> py_int h)"

definition classify :: "string \<Rightarrow> int \<Rightarrow> reply \<Rightarrow> error + json" where
  "classify endpoint current_time rep =
     (case rep of
        RequestException \<Rightarrow> Inl (GitHubAPIError RequestFailed)
      | Response r \<Rightarrow>
          if status_code r = 429 then
            (case rate_limit_reset r of
               Inl e \<Rightarrow> Inl e
             | Inr reset_time \<Rightarrow> Inl (RateLimitError (max (reset_time - current_time) 60)))
          else if 400 \<le> status_code r \<and> status_code r < 600 then
            (if status_code r = 404 then Inl (GitHubAPIError (NotFound endpoint))
             else if status_code r = 403 then Inl (GitHubAPIError (Forbidden endpoint))
             else Inl (GitHubAPIError (HTTPStatus (status_code r))))
          else
            (case json_body r of
               None \<Rightarrow> Inl (GitHubAPIError RequestFailed)
             | Some j \<Rightarrow> Inr j))"

definition make_request ::
  "'w env \<Rightarrow> string \<Rightarrow> (string \<times> json) list \<Rightarrow> 'w client \<Rightarrow> (error + json) \<times> 'w client" where
  "make_request E endpoint params c =
     (let rq = \<lparr>req_endpoint = endpoint, req_params = params\<rparr>;
          (rep, w') = session_get E (world c) rq;
          res = classify endpoint (time_now E w') rep
      in (res, \<lparr>world = w', calls = calls c @ [(rq, res)]\<rparr>))"


section \<open>The model classes\<close>

text \<open>
  \<open>RepoInfo\<close>, \<open>UserInfo\<close> and \<open>ExtractionResult\<close> of \<open>models.py\<close>; each field carries the name of
  its class in front (\<open>repository_\<close>, \<open>user_\<close>, \<open>result_\<close>), since the three classes share field
  names with one another and with the variables of the functions.  The \<open>extracted_at\<close>
  time stamp of a result is left out.
\<close>

record repo_info =
  repository_name :: string
  repository_full_name :: string
  repository_owner :: string
  repository_description :: "string option"
  repository_html_url :: string
  repository_stargazers_count :: int
  repository_forks_count :: int
  repository_language :: "string option"
  repository_created_at :: "datetime option"
  repository_updated_at :: "datetime option"

record user_info =
  user_login :: string
  user_name :: "string option"
  user_email :: "string option"
  user_location :: "string option"
  user_company :: "string option"
  user_bio :: "string option"
  user_blog :: "string option"
  user_twitter_username :: "string option"
  user_public_repos :: int
  user_followers :: int
  user_following :: int
  user_created_at :: "datetime option"
  user_updated_at :: "datetime option"
  user_avatar_url :: "string option"
  user_html_url :: "string option"

record extraction_result =
  result_repository :: repo_info
  result_stargazers :: "user_info list"
  result_forkers :: "user_info list"
  result_total_stargazers :: int
  result_total_forkers :: int

text \<open>
  Validation of one keyword argument against the declared type of its field.  A string is a
  valid \<open>str\<close> and an integer a valid \<open>int\<close> as they are; what the library makes of any other
  value is the environment's.  \<open>None\<close> is valid for an \<open>Optional\<close> field; an argument that is not
  passed takes the field's default.
\<close>

definition str_field :: "'w env \<Rightarrow> json \<Rightarrow> string option" where
  "str_field E v = (case v of JStr s \<Rightarrow> Some s | _ \<Rightarrow> coerce_str E v)"

definition int_field :: "'w env \<Rightarrow> json \<Rightarrow> int option" where
  "int_field E v = (case v of JInt i \<Rightarrow> Some i | _ \<Rightarrow> coerce_int E v)"

definition req_str :: "'w env \<Rightarrow> (string \<times> json) list \<Rightarrow> string \<Rightarrow> string option" where
  "req_str E kw k = (case map_of kw k of None \<Rightarrow> None | Some v \<Rightarrow> str_field E v)"

definition opt_str :: "'w env \<Rightarrow> (string \<times> json) list \<Rightarrow> string \<Rightarrow> string option option" where
  "opt_str E kw k =
     (case map_of kw k of
        None \<Rightarrow> Some None
      | Some JNull \<Rightarrow> Some None
      | Some v \<Rightarrow> map_option Some (str_field E v))"

definition dflt_int :: "'w env \<Rightarrow> (string \<times> json) list \<Rightarrow> string \<Rightarrow> int option" where
  "dflt_int E kw k = (case map_of kw k of None \<Rightarrow> Some 0 | Some v \<Rightarrow> int_field E v)"

definition opt_datetime :: "'w env \<Rightarrow> (string \<times> json) list \<Rightarrow> string \<Rightarrow> datetime option option" where
  "opt_datetime E kw k =
     (case map_of kw k of
        None \<Rightarrow> Some None
      | Some JNull \<Rightarrow> Some None
      | Some v \<Rightarrow> map_option Some (parse_datetime E v))"

text \<open>The constructors: a \<open>ValidationError\<close> unless every field validates.\<close>

definition RepoInfo :: "'w env \<Rightarrow> (string \<times> json) list \<Rightarrow> error + repo_info" where
  "RepoInfo E kw =
     (let name = req_str E kw ''name'';
          full_name = req_str E kw ''full_name'';
          owner = req_str E kw ''owner'';
          description = opt_str E kw ''description'';
          html_url = req_str E kw ''html_url'';
          stargazers_count = dflt_int E kw ''stargazers_count'';
          forks_count = dflt_int E kw ''forks_count'';
          language = opt_str E kw ''language'';
          created_at = opt_datetime E kw ''created_at'';
          updated_at = opt_datetime E kw ''updated_at''
      in if name \<noteq> None \<and> full_name \<noteq> None \<and> owner \<noteq> None \<and> description \<noteq> None \<and>
            html_url \<noteq> None \<and> stargazers_count \<noteq> None \<and> forks_count \<noteq> None \<and>
            language \<noteq> None \<and> created_at \<noteq> None \<and> updated_at \<noteq> None
         then Inr \<lparr>repository_name = the name,
                   repository_full_name = the full_name,
                   repository_owner = the owner,
                   repository_description = the description,
                   repository_html_url = the html_url,
                   repository_stargazers_count = the stargazers_count,
                   repository_forks_count = the forks_count,
                   repository_language = the language,
                   repository_created_at = the created_at,
                   repository_updated_at = the updated_at\<rparr>
         else Inl ValidationError)"

definition UserInfo :: "'w env \<Rightarrow> (string \<times> json) list \<Rightarrow> error + user_info" where
  "UserInfo E kw =
     (let login = req_str E kw ''login'';
          name = opt_str E kw ''name'';
          email = opt_str E kw ''email'';
          location = opt_str E kw ''location'';
          company = opt_str E kw ''company'';
          bio = opt_str E kw ''bio'';
          blog = opt_str E kw ''blog'';
          twitter_username = opt_str E kw ''twitter_username'';
          public_repos = dflt_int E kw ''public_repos'';
          followers = dflt_int E kw ''followers'';
          following = dflt_int E kw ''following'';
          created_at = opt_datetime E kw ''created_at'';
          updated_at = opt_datetime E kw ''updated_at'';
          avatar_url = opt_str E kw ''avatar_url'';
          html_url = opt_str E kw ''html_url''
      in if login \<noteq> None \<and> name \<noteq> None \<and> email \<noteq> None \<and> location \<noteq> None \<and>
            company \<noteq> None \<and> bio \<noteq> None \<and> blog \<noteq> None \<and> twitter_username \<noteq> None \<and>
            public_repos \<noteq> None \<and> followers \<noteq> None \<and> following \<noteq> None \<and>
            created_at \<noteq> None \<and> updated_at \<noteq> None \<and> avatar_url \<noteq> None \<and> html_url \<noteq> None
         then Inr \<lparr>user_login = the login,
                   user_name = the name,
                   user_email = the email,
                   user_location = the location,
                   user_company = the company,
                   user_bio = the bio,
                   user_blog = the blog,
                   user_twitter_username = the twitter_username,
                   user_public_repos = the public_repos,
                   user_followers = the followers,
                   user_following = the following,
                   user_created_at = the created_at,
                   user_updated_at = the updated_at,
                   user_avatar_url = the avatar_url,
                   user_html_url = the html_url\<rparr>
         else Inl ValidationError)"

section \<open>The client: \<open>GitHubClient\<close>\<close>

definition get_repository_info ::
  "'w env \<Rightarrow> string \<Rightarrow> string \<Rightarrow> 'w client \<Rightarrow> (error + repo_info) \<times> 'w client" where
  "get_repository_info E owner repo c =
     (case make_request E (''/repos/'' @ owner @ ''/'' @ repo) [] c of
        (Inl e, c') \<Rightarrow> (Inl e, c')
      | (Inr data, c') \<Rightarrow>
          (err_bind
             (kwargs
                [(''name'', py_index data ''name''),
                 (''full_name'', py_index data ''full_name''),
                 (''owner'', err_bind (py_index data ''owner'') (\<lambda>ow. py_index ow ''login'')),
                 (''description'', py_get data ''description'' JNull),
                 (''html_url'', py_index data ''html_url''),
                 (''stargazers_count'', py_index data ''stargazers_count''),
                 (''forks_count'', py_index data ''forks_count''),
                 (''language'', py_get data ''language'' JNull),
                 (''created_at'', py_index data ''created_at''),
                 (''updated_at'', py_index data ''updated_at'')])
             (RepoInfo E),
           c'))"

subsection \<open>The paginators\<close>

text \<open>
  The minimal record of one list item, as both walks build it:
  \<open>UserInfo(login=d["login"], avatar_url=d["avatar_url"], html_url=d["html_url"])\<close>.
\<close>

definition minimal_user :: "'w env \<Rightarrow> json \<Rightarrow> error + user_info" where
  "minimal_user E d =
     err_bind
       (kwargs
          [(''login'', py_index d ''login''),
           (''avatar_url'', py_index d ''avatar_url''),
           (''html_url'', py_index d ''html_url'')])
       (UserInfo E)"

text \<open>The inner \<open>for\<close> loop over the items of one page: the records in order, or the first
  exception.\<close>

fun project_all :: "('a \<Rightarrow> error + 'b) \<Rightarrow> 'a list \<Rightarrow> error + 'b list" where
  "project_all f [] = Inr []"
| "project_all f (x # xs) =
     (case f x of
        Inl e \<Rightarrow> Inl e
      | Inr y \<Rightarrow> (case project_all f xs of Inl e \<Rightarrow> Inl e | Inr ys \<Rightarrow> Inr (y # ys)))"

definition page_users :: "'w env \<Rightarrow> json \<Rightarrow> error + user_info list" where
  "page_users E data = err_bind (py_iter data) (project_all (minimal_user E))"

definition page_fork_owners :: "'w env \<Rightarrow> json \<Rightarrow> error + user_info list" where
  "page_fork_owners E data =
     err_bind (py_iter data)
       (project_all (\<lambda>fork. err_bind (py_index fork ''owner'') (minimal_user E)))"

text \<open>
  The \<open>while True\<close> loop of \<open>_paginate_users\<close>, from the state \<open>(page, users)\<close>.  It need not end:
  a server may go on returning non-empty pages, and then the walk returns nothing
  (\<open>None\<close>).  \<open>if max_pages and page > max_pages\<close> tests the truth value of \<open>max_pages\<close> first:
  \<open>None\<close> and \<open>0\<close> are both false.
\<close>

definition page_params :: "int \<Rightarrow> int \<Rightarrow> (string \<times> json) list" where
  "page_params page per_page = [(''page'', JInt page), (''per_page'', JInt per_page)]"

definition limit_passed :: "int option \<Rightarrow> int \<Rightarrow> bool" where
  "limit_passed max_pages page =
     (case max_pages of None \<Rightarrow> False | Some m \<Rightarrow> m \<noteq> 0 \<and> page > m)"

partial_function (option) paginate_users_loop ::
  "'w env \<Rightarrow> string \<Rightarrow> int \<Rightarrow> int option \<Rightarrow> int \<Rightarrow> user_info list \<Rightarrow> 'w client \<Rightarrow>
     ((error + user_info list) \<times> 'w client) option" where
  "paginate_users_loop E endpoint per_page max_pages page users c =
     (if limit_passed max_pages page then Some (Inr users, c)
      else
        (case make_request E endpoint (page_params page per_page) c of
           (Inl e, c') \<Rightarrow> Some (Inl e, c')
         | (Inr data, c') \<Rightarrow>
             if \<not> truthy data then Some (Inr users, c')
             else
               (case page_users E data of
                  Inl e \<Rightarrow> Some (Inl e, c')
                | Inr us \<Rightarrow>
                    paginate_users_loop E endpoint per_page max_pages (page + 1) (users @ us) c')))"

definition paginate_users ::
  "'w env \<Rightarrow> string \<Rightarrow> int \<Rightarrow> int option \<Rightarrow> 'w client \<Rightarrow>
     ((error + user_info list) \<times> 'w client) option" where
  "paginate_users E endpoint per_page max_pages c =
     paginate_users_loop E endpoint per_page max_pages 1 [] c"

definition get_stargazers ::
  "'w env \<Rightarrow> string \<Rightarrow> string \<Rightarrow> int \<Rightarrow> int option \<Rightarrow> 'w client \<Rightarrow>
     ((error + user_info list) \<times> 'w client) option" where
  "get_stargazers E owner repo per_page max_pages c =
     paginate_users E (''/repos/'' @ owner @ ''/'' @ repo @ ''/stargazers'') per_page max_pages c"

text \<open>\<open>get_forks\<close> has a loop of its own, which reads each record from the \<open>owner\<close> of the item.\<close>

partial_function (option) get_forks_loop ::
  "'w env \<Rightarrow> string \<Rightarrow> int \<Rightarrow> int option \<Rightarrow> int \<Rightarrow> user_info list \<Rightarrow> 'w client \<Rightarrow>
     ((error + user_info list) \<times> 'w client) option" where
  "get_forks_loop E endpoint per_page max_pages page users c =
     (if limit_passed max_pages page then Some (Inr users, c)
      else
        (case make_request E endpoint (page_params page per_page) c of
           (Inl e, c') \<Rightarrow> Some (Inl e, c')
         | (Inr data, c') \<Rightarrow>
             if \<not> truthy data then Some (Inr users, c')
             else
               (case page_fork_owners E data of
                  Inl e \<Rightarrow> Some (Inl e, c')
                | Inr us \<Rightarrow>
                    get_forks_loop E endpoint per_page max_pages (page + 1) (users @ us) c')))"

definition get_forks ::
  "'w env \<Rightarrow> string \<Rightarrow> string \<Rightarrow> int \<Rightarrow> int option \<Rightarrow> 'w client \<Rightarrow>
     ((error + user_info list) \<times> 'w client) option" where
  "get_forks E owner repo per_page max_pages c =
     get_forks_loop E (''/repos/'' @ owner @ ''/'' @ repo @ ''/forks'') per_page max_pages 1 [] c"


subsection \<open>Email discovery\<close>

text \<open>
  The acceptance test that the three strategies apply to a candidate, written once:
  \<open>email and not email.endswith("@users.noreply.github.com") and "@" in email and not
  email.startswith("noreply")\<close>.
\<close>

definition accept_email :: "string \<Rightarrow> bool" where
  "accept_email email =
     (email \<noteq> [] \<and>
      \<not> suffix ''@users.noreply.github.com'' email \<and>
      CHR ''@'' \<in> set email \<and>
      \<not> prefix ''noreply'' email)"

text \<open>
  The test on the value found in the payload.  The strategies reach it only with a true
  value; a true value that is not a string has no \<open>endswith\<close>, an \<open>AttributeError\<close>.
\<close>

definition check_candidate :: "json \<Rightarrow> error + string option" where
  "check_candidate email =
     (if \<not> truthy email then Inr None
      else (case email of
              JStr s \<Rightarrow> Inr (if accept_email s then Some s else None)
            | _ \<Rightarrow> Inl AttributeError))"

text \<open>One commit of an event payload:
  \<open>if commit.get("author", {}).get("email"): email = commit["author"]["email"]; ...\<close>.\<close>

definition commit_email :: "json \<Rightarrow> error + string option" where
  "commit_email commit =
     err_bind (py_get commit ''author'' (JDict [])) (\<lambda>author.
     err_bind (py_get author ''email'' JNull) (\<lambda>found.
       if truthy found then
         err_bind (py_index commit ''author'') (\<lambda>a.
         err_bind (py_index a ''email'') check_candidate)
       else Inr None))"

text \<open>One event of the event stream, first strategy: a \<open>PushEvent\<close> and its commits.\<close>

definition push_event_email :: "json \<Rightarrow> error + string option" where
  "push_event_email event =
     err_bind (py_get event ''type'' JNull) (\<lambda>ty.
       if ty = JStr ''PushEvent'' then
         err_bind (py_get event ''payload'' (JDict [])) (\<lambda>payload.
         err_bind (py_get payload ''commits'' (JList [])) (\<lambda>commits.
         err_bind (py_iter commits) (first_some commit_email)))
       else Inr None)"

text \<open>One event of the public stream, second strategy: a \<open>CreateEvent\<close> whose payload has
  commits.\<close>

definition create_event_email :: "json \<Rightarrow> error + string option" where
  "create_event_email event =
     err_bind (py_get event ''type'' JNull) (\<lambda>ty.
       if ty = JStr ''CreateEvent'' then
         err_bind (py_get event ''payload'' (JDict [])) (\<lambda>payload.
         err_bind (py_get payload ''commits'' JNull) (\<lambda>found.
           if truthy found then
             err_bind (py_index event ''payload'') (\<lambda>p.
             err_bind (py_index p ''commits'') (\<lambda>commits.
             err_bind (py_iter commits) (first_some commit_email)))
           else Inr None))
       else Inr None)"

text \<open>One commit of a repository's commit list, third strategy:
  \<open>commit.get("commit", {}).get("author", {}).get("email")\<close>.\<close>

definition repo_commit_email :: "json \<Rightarrow> error + string option" where
  "repo_commit_email commit =
     err_bind (py_get commit ''commit'' (JDict [])) (\<lambda>inner.
     err_bind (py_get inner ''author'' (JDict [])) (\<lambda>author.
     err_bind (py_get author ''email'' JNull) (\<lambda>found.
       if truthy found then
         err_bind (py_index commit ''commit'') (\<lambda>i.
         err_bind (py_index i ''author'') (\<lambda>a.
         err_bind (py_index a ''email'') check_candidate))
       else Inr None)))"

text \<open>Every strategy catches every exception raised inside it and returns \<open>None\<close> then.\<close>

definition caught :: "error + 'a option \<Rightarrow> 'a option" where
  "caught r = (case r of Inl e \<Rightarrow> None | Inr v \<Rightarrow> v)"

definition extract_email_from_commits ::
  "'w env \<Rightarrow> string \<Rightarrow> 'w client \<Rightarrow> string option \<times> 'w client" where
  "extract_email_from_commits E username c =
     (case make_request E (''/users/'' @ username @ ''/events'') [(''per_page'', JInt 30)] c of
        (Inl e, c') \<Rightarrow> (None, c')
      | (Inr events, c') \<Rightarrow>
          (caught (err_bind (py_iter events) (first_some push_event_email)), c'))"

definition extract_email_from_events ::
  "'w env \<Rightarrow> string \<Rightarrow> 'w client \<Rightarrow> string option \<times> 'w client" where
  "extract_email_from_events E username c =
     (case make_request E (''/users/'' @ username @ ''/events/public'') [(''per_page'', JInt 30)] c of
        (Inl e, c') \<Rightarrow> (None, c')
      | (Inr events, c') \<Rightarrow>
          (caught (err_bind (py_iter events) (first_some create_event_email)), c'))"

text \<open>An f-string field: a string as it is, any other value as Python prints it.\<close>

definition fmt :: "'w env \<Rightarrow> json \<Rightarrow> string" where
  "fmt E v = (case v of JStr s \<Rightarrow> s | _ \<Rightarrow> py_repr E v)"

text \<open>
  The loop of the third strategy over the (at most three) repositories.  An exception
  inside the inner \<open>try\<close> is caught and the loop goes on, unless the handler's own message,
  which reads \<open>repo['name']\<close> again, raises: that exception, and one raised outside the inner
  \<open>try\<close>, ends the strategy with \<open>None\<close>.
\<close>

fun check_repos :: "'w env \<Rightarrow> string \<Rightarrow> json list \<Rightarrow> 'w client \<Rightarrow> string option \<times> 'w client" where
  "check_repos E username [] c = (None, c)"
| "check_repos E username (repo # rest) c =
     (case err_bind (py_get repo ''owner'' (JDict [])) (\<lambda>ow. py_get ow ''login'' JNull) of
        Inl e \<Rightarrow> (None, c)
      | Inr l \<Rightarrow>
          if l = JStr username then
            (case py_index repo ''name'' of
               Inl e \<Rightarrow> (None, c)
             | Inr nm \<Rightarrow>
                 (case make_request E (''/repos/'' @ username @ ''/'' @ fmt E nm @ ''/commits'')
                         [(''per_page'', JInt 10), (''author'', JStr username)] c of
                    (Inl e, c') \<Rightarrow> check_repos E username rest c'
                  | (Inr commits, c') \<Rightarrow>
                      (case err_bind (py_iter commits) (first_some repo_commit_email) of
                         Inl e \<Rightarrow> check_repos E username rest c'
                       | Inr (Some email) \<Rightarrow> (Some email, c')
                       | Inr None \<Rightarrow> check_repos E username rest c')))
          else check_repos E username rest c)"

definition extract_email_from_user_repos ::
  "'w env \<Rightarrow> string \<Rightarrow> 'w client \<Rightarrow> string option \<times> 'w client" where
  "extract_email_from_user_repos E username c =
     (case make_request E (''/users/'' @ username @ ''/repos'')
             [(''per_page'', JInt 10), (''sort'', JStr ''updated'')] c of
        (Inl e, c') \<Rightarrow> (None, c')
      | (Inr repos, c') \<Rightarrow>
          (case py_slice3 repos of
             Inl e \<Rightarrow> (None, c')
           | Inr first3 \<Rightarrow> check_repos E username first3 c'))"

text \<open>
  The part of \<open>get_user_info\<close> that settles the \<open>email\<close> variable, from the profile's value: the
  cascade runs when that value is false (\<open>None\<close> or empty) and aggressive extraction is asked
  for; each \<open>if not email\<close> lets the next strategy run only when the one before returned
  \<open>None\<close>.
\<close>

definition of_found :: "string option \<Rightarrow> json" where
  "of_found r = (case r of None \<Rightarrow> JNull | Some s \<Rightarrow> JStr s)"

definition discover_email ::
  "'w env \<Rightarrow> string \<Rightarrow> json \<Rightarrow> bool \<Rightarrow> 'w client \<Rightarrow> json \<times> 'w client" where
  "discover_email E username email aggressive_email_extraction c =
     (if \<not> truthy email \<and> aggressive_email_extraction then
        (case extract_email_from_commits E username c of
           (Some s, c1) \<Rightarrow> (JStr s, c1)
         | (None, c1) \<Rightarrow>
             (case extract_email_from_events E username c1 of
                (Some s, c2) \<Rightarrow> (JStr s, c2)
              | (None, c2) \<Rightarrow>
                  (case extract_email_from_user_repos E username c2 of
                     (r, c3) \<Rightarrow> (of_found r, c3))))
      else (email, c))"

definition get_user_info ::
  "'w env \<Rightarrow> string \<Rightarrow> bool \<Rightarrow> 'w client \<Rightarrow> (error + user_info) \<times> 'w client" where
  "get_user_info E username aggressive_email_extraction c =
     (case make_request E (''/users/'' @ username) [] c of
        (Inl e, c') \<Rightarrow> (Inl e, c')
      | (Inr data, c') \<Rightarrow>
          (case py_get data ''email'' JNull of
             Inl e \<Rightarrow> (Inl e, c')
           | Inr profile_email \<Rightarrow>
               (case discover_email E username profile_email aggressive_email_extraction c' of
                  (email, c'') \<Rightarrow>
                    (err_bind
                       (kwargs
                          [(''login'', py_index data ''login''),
                           (''name'', py_get data ''name'' JNull),
                           (''email'', Inr email),
                           (''location'', py_get data ''location'' JNull),
                           (''company'', py_get data ''company'' JNull),
                           (''bio'', py_get data ''bio'' JNull),
                           (''blog'', py_get data ''blog'' JNull),
                           (''twitter_username'', py_get data ''twitter_username'' JNull),
                           (''public_repos'', py_index data ''public_repos''),
                           (''followers'', py_index data ''followers''),
                           (''following'', py_index data ''following''),
                           (''created_at'', py_index data ''created_at''),
                           (''updated_at'', py_index data ''updated_at''),
                           (''avatar_url'', py_index data ''avatar_url''),
                           (''html_url'', py_index data ''html_url'')])
                       (UserInfo E),
                     c''))))"


section \<open>The extraction service: \<open>GitHubExtractor\<close>\<close>

text \<open>
  The enrichment loop of \<open>_extract_stargazers\<close> and \<open>_extract_forkers\<close>: for each minimal record
  in turn, the detailed record, or the minimal one when \<open>get_user_info\<close> raised.
\<close>

fun detailed_users ::
  "'w env \<Rightarrow> bool \<Rightarrow> user_info list \<Rightarrow> 'w client \<Rightarrow> user_info list \<times> 'w client" where
  "detailed_users E aggressive_email_extraction [] c = ([], c)"
| "detailed_users E aggressive_email_extraction (user # rest) c =
     (case get_user_info E (user_login user) aggressive_email_extraction c of
        (Inr detailed_user, c') \<Rightarrow>
          (case detailed_users E aggressive_email_extraction rest c' of
             (ds, c'') \<Rightarrow> (detailed_user # ds, c''))
      | (Inl e, c') \<Rightarrow>
          (case detailed_users E aggressive_email_extraction rest c' of
             (ds, c'') \<Rightarrow> (user # ds, c'')))"

text \<open>\<open>if max_count:\<close> is false for \<open>None\<close> and for \<open>0\<close>.\<close>

definition cap_given :: "int option \<Rightarrow> bool" where
  "cap_given max_count = (case max_count of None \<Rightarrow> False | Some n \<Rightarrow> n \<noteq> 0)"

definition pages_for :: "int option \<Rightarrow> int \<Rightarrow> int option" where
  "pages_for max_count per_page =
     (if cap_given max_count then Some ((the max_count + per_page - 1) div per_page) else None)"

definition capped :: "int option \<Rightarrow> 'a list \<Rightarrow> 'a list" where
  "capped max_count xs = (if cap_given max_count then py_take (the max_count) xs else xs)"

definition extract_stargazers ::
  "'w env \<Rightarrow> string \<Rightarrow> string \<Rightarrow> int option \<Rightarrow> bool \<Rightarrow> bool \<Rightarrow> 'w client \<Rightarrow>
     ((error + user_info list) \<times> 'w client) option" where
  "extract_stargazers E owner repo_name max_count detailed_info aggressive_email_extraction c =
     (let per_page = 30;
          max_pages = pages_for max_count per_page
      in case get_stargazers E owner repo_name per_page max_pages c of
           None \<Rightarrow> None
         | Some (Inl e, c') \<Rightarrow> Some (Inl e, c')
         | Some (Inr fetched, c') \<Rightarrow>
             (let stargazers = capped max_count fetched
              in if detailed_info then
                   (case detailed_users E aggressive_email_extraction stargazers c' of
                      (detailed_stargazers, c'') \<Rightarrow> Some (Inr detailed_stargazers, c''))
                 else Some (Inr stargazers, c')))"

definition extract_forkers ::
  "'w env \<Rightarrow> string \<Rightarrow> string \<Rightarrow> int option \<Rightarrow> bool \<Rightarrow> bool \<Rightarrow> 'w client \<Rightarrow>
     ((error + user_info list) \<times> 'w client) option" where
  "extract_forkers E owner repo_name max_count detailed_info aggressive_email_extraction c =
     (let per_page = 30;
          max_pages = pages_for max_count per_page
      in case get_forks E owner repo_name per_page max_pages c of
           None \<Rightarrow> None
         | Some (Inl e, c') \<Rightarrow> Some (Inl e, c')
         | Some (Inr fetched, c') \<Rightarrow>
             (let forkers = capped max_count fetched
              in if detailed_info then
                   (case detailed_users E aggressive_email_extraction forkers c' of
                      (detailed_forkers, c'') \<Rightarrow> Some (Inr detailed_forkers, c''))
                 else Some (Inr forkers, c')))"

text \<open>
  The two guarded sections of \<open>extract_repository_info\<close>: \<open>try: ... result.stargazers = ...
  except Exception: (a log line)\<close>.  A section that raised leaves the result as it was; a
  section that does not return leaves no result at all.
\<close>

definition stargazers_section ::
  "'w env \<Rightarrow> string \<Rightarrow> string \<Rightarrow> bool \<Rightarrow> int option \<Rightarrow> bool \<Rightarrow> bool \<Rightarrow>
     extraction_result \<Rightarrow> 'w client \<Rightarrow> (extraction_result \<times> 'w client) option" where
  "stargazers_section E owner repo_name include_stargazers max_stargazers detailed_user_info
       aggressive_email_extraction result c =
     (if include_stargazers then
        (case extract_stargazers E owner repo_name max_stargazers detailed_user_info
                aggressive_email_extraction c of
           None \<Rightarrow> None
         | Some (Inl e, c') \<Rightarrow> Some (result, c')
         | Some (Inr stargazers, c') \<Rightarrow> Some (result\<lparr>result_stargazers := stargazers\<rparr>, c'))
      else Some (result, c))"

definition forkers_section ::
  "'w env \<Rightarrow> string \<Rightarrow> string \<Rightarrow> bool \<Rightarrow> int option \<Rightarrow> bool \<Rightarrow> bool \<Rightarrow>
     extraction_result \<Rightarrow> 'w client \<Rightarrow> (extraction_result \<times> 'w client) option" where
  "forkers_section E owner repo_name include_forkers max_forkers detailed_user_info
       aggressive_email_extraction result c =
     (if include_forkers then
        (case extract_forkers E owner repo_name max_forkers detailed_user_info
                aggressive_email_extraction c of
           None \<Rightarrow> None
         | Some (Inl e, c') \<Rightarrow> Some (result, c')
         | Some (Inr forkers, c') \<Rightarrow> Some (result\<lparr>result_forkers := forkers\<rparr>, c'))
      else Some (result, c))"

text \<open>\<open>ExtractionResult(repository=repo_info, total_stargazers=..., total_forkers=...)\<close>: the two
  lists take their default, the empty list.\<close>

definition ExtractionResult :: "repo_info \<Rightarrow> extraction_result" where
  "ExtractionResult repo_info =
     \<lparr>result_repository = repo_info,
      result_stargazers = [],
      result_forkers = [],
      result_total_stargazers = repository_stargazers_count repo_info,
      result_total_forkers = repository_forks_count repo_info\<rparr>"

definition extract_repository_info ::
  "'w env \<Rightarrow> string \<Rightarrow> bool \<Rightarrow> bool \<Rightarrow> int option \<Rightarrow> int option \<Rightarrow> bool \<Rightarrow> bool \<Rightarrow> 'w client \<Rightarrow>
     ((error + extraction_result) \<times> 'w client) option" where
  "extract_repository_info E repo_url include_stargazers include_forkers max_stargazers
       max_forkers detailed_user_info aggressive_email_extraction c =
     (case parse_repo_identifier repo_url of
        Inl e \<Rightarrow> Some (Inl e, c)
      | Inr (owner, repo_name) \<Rightarrow>
          (case get_repository_info E owner repo_name c of
             (Inl e, c0) \<Rightarrow> Some (Inl e, c0)
           | (Inr repo_info, c0) \<Rightarrow>
               (let result = ExtractionResult repo_info
                in case stargazers_section E owner repo_name include_stargazers max_stargazers
                          detailed_user_info aggressive_email_extraction result c0 of
                     None \<Rightarrow> None
                   | Some (result1, c1) \<Rightarrow>
                       (case forkers_section E owner repo_name include_forkers max_forkers
                               detailed_user_info aggressive_email_extraction result1 c1 of
                          None \<Rightarrow> None
                        | Some (result2, c2) \<Rightarrow> Some (Inr result2, c2)))))"


section \<open>A sample server\<close>

text \<open>
  A small world on which the functions above can be run: the repository \<open>octocat/hello\<close> with
  three stargazers on two pages and one fork, the repository \<open>octocat/quiet\<close> whose lists
  cannot be read, the profiles of two of the users (\<open>alice\<close>, who
  hides her email but has pushed commits, and \<open>carol\<close>, who shows hers), and an endpoint that
  is rate limited.  The state of the world counts the requests served; the clock stands at
  1000; the model classes coerce nothing.
\<close>

definition ok :: "json \<Rightarrow> reply" where
  "ok j = Response \<lparr>status_code = 200, headers = [], json_body = Some j\<rparr>"

definition list_item :: "string \<Rightarrow> json" where
  "list_item l =
     JDict [(''login'', JStr l), (''avatar_url'', JStr (l @ ''.png'')), (''html_url'', JStr l)]"

definition profile :: "string \<Rightarrow> json \<Rightarrow> json" where
  "profile l email =
     JDict [(''login'', JStr l), (''name'', JNull), (''email'', email),
            (''public_repos'', JInt 2), (''followers'', JInt 3), (''following'', JInt 4),
            (''created_at'', JNull), (''updated_at'', JNull),
            (''avatar_url'', JStr (l @ ''.png'')), (''html_url'', JStr l)]"

definition commit_by :: "string \<Rightarrow> json" where
  "commit_by email = JDict [(''author'', JDict [(''email'', JStr email)])]"

definition sample_repo :: json where
  "sample_repo =
     JDict [(''name'', JStr ''hello''), (''full_name'', JStr ''octocat/hello''),
            (''owner'', JDict [(''login'', JStr ''octocat'')]),
            (''html_url'', JStr ''https://github.com/octocat/hello''),
            (''stargazers_count'', JInt 50), (''forks_count'', JInt 7),
            (''created_at'', JNull), (''updated_at'', JNull)]"

definition sample_get :: "nat \<Rightarrow> request \<Rightarrow> reply \<times> nat" where
  "sample_get w rq =
     (let ep = req_endpoint rq; page = map_of (req_params rq) ''page'' in
      (if ep = ''/repos/octocat/hello'' then ok sample_repo
       else if ep = ''/repos/octocat/quiet'' then ok sample_repo
       else if ep = ''/repos/octocat/hello/stargazers'' then
         ok (if page = Some (JInt 1) then JList [list_item ''alice'', list_item ''bob'']
             else if page = Some (JInt 2) then JList [list_item ''carol'']
             else JList [])
       else if ep = ''/repos/octocat/hello/forks'' then
         ok (if page = Some (JInt 1) then JList [JDict [(''owner'', list_item ''dave'')]]
             else JList [])
       else if ep = ''/users/alice'' then ok (profile ''alice'' JNull)
       else if ep = ''/users/alice/events'' then
         ok (JList [JDict [(''type'', JStr ''PushEvent''),
                           (''payload'', JDict [(''commits'',
                              JList [commit_by ''alice@users.noreply.github.com''])])]])
       else if ep = ''/users/alice/events/public'' then
         ok (JList [JDict [(''type'', JStr ''CreateEvent''),
                           (''payload'', JDict [(''commits'',
                              JList [commit_by ''alice@example.com''])])]])
       else if ep = ''/users/carol'' then ok (profile ''carol'' (JStr ''carol@example.com''))
       else if ep = ''/limited'' then
         Response \<lparr>status_code = 429, headers = [(''X-RateLimit-Reset'', ''1030'')],
                   json_body = None\<rparr>
       else Response \<lparr>status_code = 404, headers = [], json_body = None\<rparr>,
       Suc w))"

definition sample_env :: "nat env" where
  "sample_env =
     \<lparr>session_get = sample_get,
      time_now = (\<lambda>w. 1000),
      coerce_str = (\<lambda>v. None),
      coerce_int = (\<lambda>v. None),
      parse_datetime = (\<lambda>v. None),
      py_repr = (\<lambda>v. ''?'')\<rparr>"

definition start :: "nat client" where
  "start = \<lparr>world = 0, calls = []\<rparr>"

text \<open>The minimal record that a list item of the sample server gives.\<close>

definition sample_user :: "string \<Rightarrow> user_info" where
  "sample_user l =
     \<lparr>user_login = l, user_name = None, user_email = None, user_location = None,
      user_company = None, user_bio = None, user_blog = None, user_twitter_username = None,
      user_public_repos = 0, user_followers = 0, user_following = 0,
      user_created_at = None, user_updated_at = None,
      user_avatar_url = Some (l @ ''.png''), user_html_url = Some l\<rparr>"

definition stargazers_endpoint :: string where
  "stargazers_endpoint = ''/repos/octocat/hello/stargazers''"

definition forks_endpoint :: string where
  "forks_endpoint = ''/repos/octocat/hello/forks''"

text \<open>The record of the sample repository.\<close>

definition sample_repo_info :: repo_info where
  "sample_repo_info =
     \<lparr>repository_name = ''hello'', repository_full_name = ''octocat/hello'',
      repository_owner = ''octocat'', repository_description = None,
      repository_html_url = ''https://github.com/octocat/hello'',
      repository_stargazers_count = 50, repository_forks_count = 7,
      repository_language = None, repository_created_at = None,
      repository_updated_at = None\<rparr>"


section \<open>What a walk leaves in the log\<close>

text \<open>
  The specification's description of a walk, as a test on the log entries a run has added:
  the pages are requested one after the other from a first page, each with the parameters
  \<open>{page, per_page}\<close>, no page beyond the ceiling is requested, and the run ends at the first
  reply that ends it (a failed request, a page without items, a page whose items cannot be
  read) or at the ceiling.  \<open>collected\<close> gives the records of such a log: those of the pages
  in page order, the items of a page in their order, up to the first empty page.
\<close>

definition page_request :: "string \<Rightarrow> int \<Rightarrow> int \<Rightarrow> request" where
  "page_request endpoint per_page page =
     \<lparr>req_endpoint = endpoint, req_params = page_params page per_page\<rparr>"

definition ends_walk :: "(json \<Rightarrow> error + 'u list) \<Rightarrow> error + json \<Rightarrow> bool" where
  "ends_walk proj res =
     (case res of Inl e \<Rightarrow> True | Inr data \<Rightarrow> \<not> truthy data \<or> isl (proj data))"

fun walk_trace ::
  "(json \<Rightarrow> error + 'u list) \<Rightarrow> string \<Rightarrow> int \<Rightarrow> int option \<Rightarrow> int \<Rightarrow>
     (request \<times> (error + json)) list \<Rightarrow> bool" where
  "walk_trace proj endpoint per_page max_pages page [] = limit_passed max_pages page"
| "walk_trace proj endpoint per_page max_pages page (x # rest) =
     (\<not> limit_passed max_pages page \<and> fst x = page_request endpoint per_page page \<and>
      (if ends_walk proj (snd x) then rest = []
       else walk_trace proj endpoint per_page max_pages (page + 1) rest))"

fun collected :: "(json \<Rightarrow> error + 'u list) \<Rightarrow> (error + json) list \<Rightarrow> error + 'u list" where
  "collected proj [] = Inr []"
| "collected proj (Inl e # rest) = Inl e"
| "collected proj (Inr data # rest) =
     (if \<not> truthy data then Inr []
      else (case proj data of
              Inl e \<Rightarrow> Inl e
            | Inr us \<Rightarrow> (case collected proj rest of Inl e \<Rightarrow> Inl e | Inr vs \<Rightarrow> Inr (us @ vs))))"

text \<open>The records a walk returns when it started with the records \<open>users\<close> already read.\<close>

definition with_users :: "'u list \<Rightarrow> error + 'u list \<Rightarrow> error + 'u list" where
  "with_users users r = (case r of Inl e \<Rightarrow> Inl e | Inr us \<Rightarrow> Inr (users @ us))"

text \<open>The world after a sequence of requests, each served once.\<close>

definition served :: "'w env \<Rightarrow> 'w \<Rightarrow> request list \<Rightarrow> 'w" where
  "served E w rqs = foldl (\<lambda>w rq. snd (session_get E w rq)) w rqs"


section \<open>The stream of owners\<close>

text \<open>
  The server a fork listing is compared with: the same server, whose every page carries, in
  place of each item, the \<open>owner\<close> object nested in it (\<open>null\<close> for an item that has none).  Two
  results hold the same records when both are the same list, or both are failures.
\<close>

definition owner_of :: "json \<Rightarrow> json" where
  "owner_of fork = (case py_index fork ''owner'' of Inr ow \<Rightarrow> ow | Inl e \<Rightarrow> JNull)"

definition owners_page :: "json \<Rightarrow> json" where
  "owners_page data = (case py_iter data of Inr items \<Rightarrow> JList (map owner_of items) | Inl e \<Rightarrow> data)"

definition owners_reply :: "reply \<Rightarrow> reply" where
  "owners_reply rep =
     (case rep of
        Response r \<Rightarrow> Response (r\<lparr>json_body := map_option owners_page (json_body r)\<rparr>)
      | RequestException \<Rightarrow> RequestException)"

definition owner_stream :: "'w env \<Rightarrow> 'w env" where
  "owner_stream E =
     E\<lparr>session_get := (\<lambda>w rq. case session_get E w rq of (rep, w') \<Rightarrow> (owners_reply rep, w'))\<rparr>"

definition owners_result :: "error + json \<Rightarrow> error + json" where
  "owners_result res = (case res of Inl e \<Rightarrow> Inl e | Inr data \<Rightarrow> Inr (owners_page data))"

definition same_records :: "error + 'a \<Rightarrow> error + 'a \<Rightarrow> bool" where
  "same_records r r' = (case r of Inr us \<Rightarrow> r' = Inr us | Inl e \<Rightarrow> isl r')"

text \<open>
  The states of the two walks, both started in \<open>c0\<close>: the same world, and logs that extend
  the log of \<open>c0\<close> by the same requests, the pages of the second being the owners of the
  pages of the first.
\<close>

definition paired :: "'w client \<Rightarrow> 'w client \<Rightarrow> 'w client \<Rightarrow> bool" where
  "paired c0 c d =
     (world d = world c \<and>
      take (length (calls c0)) (calls c) = calls c0 \<and>
      calls d = calls c0 @
        map (\<lambda>x. (fst x, owners_result (snd x))) (drop (length (calls c0)) (calls c)))"

definition walks_agree ::
  "'w client \<Rightarrow> ((error + 'a) \<times> 'w client) option \<Rightarrow> ((error + 'a) \<times> 'w client) option \<Rightarrow> bool" where
  "walks_agree c0 run run' =
     (case run of
        None \<Rightarrow> run' = None
      | Some y \<Rightarrow>
          (case run' of
             None \<Rightarrow> False
           | Some y' \<Rightarrow> same_records (fst y) (fst y') \<and> paired c0 (snd y) (snd y')))"


section \<open>Properties of the resolver\<close>



lemma py_split_no_sep: "c \<notin> set s \<Longrightarrow> py_split c s = [s]"
  by (induction s) (auto split: list.splits)

lemma py_split_append: "c \<notin> set a \<Longrightarrow> py_split c (a @ c # r) = a # py_split c r"
  by (induction a) (auto split: list.splits)












lemma parse_unfold:
  "parse_repo_identifier s =
     (if is_http_url (strip s) then
        (if fst (urlparse (strip s)) \<noteq> ''github.com'' then Inl (ValueError msg_unsupported_host)
         else if length (py_split CHR ''/'' (strip_chars CHR ''/'' (snd (urlparse (strip s))))) < 2
           then Inl (ValueError msg_invalid_url)
         else Inr (py_split CHR ''/'' (strip_chars CHR ''/'' (snd (urlparse (strip s)))) ! 0,
                   py_split CHR ''/'' (strip_chars CHR ''/'' (snd (urlparse (strip s)))) ! 1))
      else if CHR ''/'' \<in> set (strip s) then
        (if length (py_split CHR ''/'' (strip s)) \<noteq> 2 then Inl (ValueError msg_invalid_format)
         else Inr (py_split CHR ''/'' (strip s) ! 0, py_split CHR ''/'' (strip s) ! 1))
      else Inl (ValueError msg_invalid_identifier))"
  by (simp add: parse_repo_identifier_def Let_def case_prod_beta)




lemma dropWhile_keep: "s \<noteq> [] \<Longrightarrow> \<not> P (hd s) \<Longrightarrow> dropWhile P s = s"
  by (cases s) auto

lemma rdrop_keep:
  assumes "a \<noteq> []" "\<not> P (last a)"
  shows "\<exists>z. rev (dropWhile P (rev (a @ y))) = a @ z \<and> (y = [] \<longrightarrow> z = []) \<and> (z \<noteq> [] \<longrightarrow> hd z = hd y)"
proof (cases "\<forall>x\<in>set y. P x")
  case True
  have "dropWhile P (rev a) = rev a"
    using assms by (intro dropWhile_keep) (auto simp: hd_rev)
  then have "rev (dropWhile P (rev (a @ y))) = a"
    using True by (simp add: dropWhile_append)
  then show ?thesis by simp
next
  case False
  then have ne: "dropWhile P (rev y) \<noteq> []" by auto
  obtain k where k: "dropWhile P (rev y) = drop k (rev y)"
    by (metis dropWhile_eq_drop)
  have z: "rev (dropWhile P (rev y)) = take (length y - k) y"
    by (simp add: k rev_drop)
  have pos: "0 < length y - k" using ne z by (metis rev_is_Nil_conv take_eq_Nil gr0I)
  obtain x where "x \<in> set (rev y)" "\<not> P x" using False by auto
  then have "dropWhile P (rev y @ rev a) = dropWhile P (rev y) @ rev a"
    by (rule dropWhile_append1)
  then have "rev (dropWhile P (rev (a @ y))) = a @ rev (dropWhile P (rev y))"
    by simp
  moreover have "hd (rev (dropWhile P (rev y))) = hd y"
    using pos z by (simp add: hd_take)
  moreover have "y \<noteq> []" using False by auto
  ultimately show ?thesis by auto
qed

lemma strip_keep:
  assumes "a \<noteq> []" "\<not> is_space (hd a)" "\<not> is_space (last a)"
  shows "\<exists>z. strip (a @ y) = a @ z \<and> (y = [] \<longrightarrow> z = []) \<and> (z \<noteq> [] \<longrightarrow> hd z = hd y)"
proof -
  have "dropWhile is_space (a @ y) = a @ y"
    using assms by (intro dropWhile_keep) auto
  then show ?thesis
    using rdrop_keep[of a is_space y] assms by (simp add: strip_def)
qed

lemma strip_chars_keep:
  assumes "a \<noteq> []" "hd a \<noteq> c" "last a \<noteq> c"
  shows "\<exists>z. strip_chars c (c # a @ y) = a @ z \<and> (y = [] \<longrightarrow> z = []) \<and> (z \<noteq> [] \<longrightarrow> hd z = hd y)"
proof -
  have "dropWhile (\<lambda>x. x = c) (c # a @ y) = a @ y"
    using assms by (cases a) auto
  then show ?thesis
    using rdrop_keep[of a "\<lambda>x. x = c" y] assms by (simp add: strip_chars_def)
qed

lemma cut_params_keep: "\<exists>e'. cut_params (a @ CHR ''/'' # e) = a @ CHR ''/'' # e'"
proof -
  let ?P = "\<lambda>c. c \<noteq> CHR ''/''"
  have "\<exists>w. dropWhile ?P (rev e @ CHR ''/'' # rev a) = w @ CHR ''/'' # rev a"
  proof (cases "\<forall>x\<in>set (rev e). ?P x")
    case True
    then have "dropWhile ?P (rev e @ CHR ''/'' # rev a) = [] @ CHR ''/'' # rev a"
      by (simp add: dropWhile_append)
    then show ?thesis by blast
  next
    case False
    then have "dropWhile ?P (rev e @ CHR ''/'' # rev a) = dropWhile ?P (rev e) @ CHR ''/'' # rev a"
      by (simp add: dropWhile_append)
    then show ?thesis by blast
  qed
  then obtain w where "dropWhile ?P (rev e @ CHR ''/'' # rev a) = w @ CHR ''/'' # rev a" by blast
  then show ?thesis by (simp add: cut_params_def Let_def)
qed

lemma cut_params_last:
  assumes "CHR ''/'' \<notin> set r" "CHR '';'' \<notin> set r"
  shows "cut_params (a @ CHR ''/'' # r) = a @ CHR ''/'' # r"
proof -
  let ?P = "\<lambda>c. c \<noteq> CHR ''/''"
  have all: "\<forall>x\<in>set (rev r). ?P x" using assms(1) by auto
  have d: "dropWhile ?P (rev r @ CHR ''/'' # rev a) = CHR ''/'' # rev a"
    using all by (simp add: dropWhile_append)
  have t: "takeWhile ?P (rev r @ CHR ''/'' # rev a) = rev r"
    using all by (simp add: takeWhile_append)
  have "takeWhile (\<lambda>c. c \<noteq> CHR '';'') r = r"
    using assms(2) by (auto simp: takeWhile_eq_all_conv)
  then show ?thesis using d t by (simp add: cut_params_def Let_def)
qed

lemma plain_nameD:
  assumes "plain_name s"
  shows "s \<noteq> []" "\<And>c. c \<in> set s \<Longrightarrow> \<not> is_space c \<and> c \<noteq> CHR ''/'' \<and> c \<noteq> CHR ''?'' \<and> c \<noteq> CHR ''#'' \<and> c \<noteq> CHR '';''"
  using assms by (auto simp: plain_name_def list_all_iff)

lemma plain_name_keep_filter:
  assumes "plain_name s"
  shows "filter (\<lambda>c. c \<noteq> CHR 0x09 \<and> c \<noteq> CHR 0x0D \<and> c \<noteq> CHR 0x0A) s = s"
proof -
  have sp: "is_space (CHR 0x09)" "is_space (CHR 0x0D)" "is_space (CHR 0x0A)"
    by (simp_all add: is_space_def)
  have "\<And>c. c \<in> set s \<Longrightarrow> c \<noteq> CHR 0x09 \<and> c \<noteq> CHR 0x0D \<and> c \<noteq> CHR 0x0A"
    using plain_nameD(2)[OF assms] sp by blast
  then show ?thesis by (simp add: filter_id_conv)
qed

text \<open>The parsed netloc and path of a github URL over plain names.\<close>

lemma urlparse_github:
  assumes o: "plain_name owner" and r: "plain_name repo"
    and sch: "sch = ''http'' \<or> sch = ''https''"
    and y: "y = [] \<or> hd y = CHR ''/''"
  shows "\<exists>z. urlparse (sch @ ''://github.com/'' @ owner @ CHR ''/'' # repo @ y) =
            (''github.com'', CHR ''/'' # owner @ CHR ''/'' # repo @ z) \<and>
            (y = [] \<longrightarrow> z = []) \<and> (z \<noteq> [] \<longrightarrow> hd z = CHR ''/'')"
proof -
  let ?ok = "\<lambda>c. c \<noteq> CHR 0x09 \<and> c \<noteq> CHR 0x0D \<and> c \<noteq> CHR 0x0A"
  let ?N = "\<lambda>c. c \<noteq> CHR ''/'' \<and> c \<noteq> CHR ''?'' \<and> c \<noteq> CHR ''#''"
  let ?Q = "\<lambda>c. c \<noteq> CHR ''?'' \<and> c \<noteq> CHR ''#''"
  define y1 where "y1 = filter ?ok y"
  have y1: "y1 = [] \<or> hd y1 = CHR ''/''" and y1e: "y = [] \<longrightarrow> y1 = []"
    using y by (cases y; auto simp: y1_def)+
  define body where "body = CHR ''/'' # owner @ CHR ''/'' # repo @ y1"
  have f: "filter ?ok (sch @ ''://github.com/'' @ owner @ CHR ''/'' # repo @ y) =
      sch @ ''://github.com'' @ body"
    using sch plain_name_keep_filter[OF o] plain_name_keep_filter[OF r]
    by (auto simp: body_def y1_def)
  have rest: "drop 3 (dropWhile (\<lambda>c. c \<noteq> CHR '':'') (sch @ ''://github.com'' @ body)) =
      ''github.com'' @ body"
    using sch by auto
  have n: "takeWhile ?N (''github.com'' @ body) = ''github.com''"
    by (simp add: body_def)
  have t: "dropWhile ?N (''github.com'' @ body) = body"
    by (simp add: body_def)
  define z1 where "z1 = takeWhile ?Q y1"
  have z1: "z1 = [] \<or> hd z1 = CHR ''/''" and z1e: "y1 = [] \<longrightarrow> z1 = []"
    using y1 by (cases y1; auto simp: z1_def)+
  have Qo: "\<And>c. c \<in> set owner \<Longrightarrow> ?Q c" using plain_nameD(2)[OF o] by blast
  have Qr: "\<And>c. c \<in> set repo \<Longrightarrow> ?Q c" using plain_nameD(2)[OF r] by blast
  have "takeWhile ?Q ((CHR ''/'' # owner @ [CHR ''/''] @ repo) @ y1) =
        (CHR ''/'' # owner @ [CHR ''/''] @ repo) @ takeWhile ?Q y1"
    using Qo Qr by (intro takeWhile_append2) auto
  then have p: "takeWhile ?Q body = CHR ''/'' # owner @ CHR ''/'' # repo @ z1"
    by (simp add: body_def z1_def)
  have "\<exists>z. cut_params (CHR ''/'' # owner @ CHR ''/'' # repo @ z1) =
          CHR ''/'' # owner @ CHR ''/'' # repo @ z \<and> (z1 = [] \<longrightarrow> z = []) \<and>
          (z \<noteq> [] \<longrightarrow> hd z = CHR ''/'')"
  proof (cases z1)
    case Nil
    have "cut_params ((CHR ''/'' # owner) @ CHR ''/'' # repo) = (CHR ''/'' # owner) @ CHR ''/'' # repo"
      using plain_nameD(2)[OF r] by (intro cut_params_last) auto
    then show ?thesis using Nil by simp
  next
    case (Cons h e)
    then have h: "h = CHR ''/''" using z1 by simp
    obtain e' where "cut_params ((CHR ''/'' # owner @ CHR ''/'' # repo) @ CHR ''/'' # e) =
        (CHR ''/'' # owner @ CHR ''/'' # repo) @ CHR ''/'' # e'"
      using cut_params_keep by blast
    then show ?thesis using Cons h by auto
  qed
  then obtain z where z: "cut_params (CHR ''/'' # owner @ CHR ''/'' # repo @ z1) =
          CHR ''/'' # owner @ CHR ''/'' # repo @ z" "z1 = [] \<longrightarrow> z = []"
          "z \<noteq> [] \<longrightarrow> hd z = CHR ''/''" by blast
  have "urlparse (sch @ ''://github.com/'' @ owner @ CHR ''/'' # repo @ y) =
            (''github.com'', CHR ''/'' # owner @ CHR ''/'' # repo @ z)"
    unfolding urlparse_def Let_def f rest n t p z(1) by simp
  then show ?thesis using z y1e z1e by blast
qed

lemma plain_name_ends:
  assumes "plain_name s"
  shows "\<not> is_space (hd s)" "\<not> is_space (last s)" "hd s \<noteq> CHR ''/''" "last s \<noteq> CHR ''/''"
    "CHR ''/'' \<notin> set s"
  using plain_nameD[OF assms] hd_in_set[of s] last_in_set[of s] by blast+

lemma bare_not_url:
  assumes o: "plain_name owner" and r: "plain_name repo"
  shows "\<not> is_http_url (owner @ CHR ''/'' # repo)"
proof
  let ?P = "\<lambda>x. x \<noteq> CHR ''/''"
  assume "is_http_url (owner @ CHR ''/'' # repo)"
  then have "\<exists>zs. owner @ CHR ''/'' # repo = ''http://'' @ zs \<or>
                 owner @ CHR ''/'' # repo = ''https://'' @ zs"
    unfolding is_http_url_def prefix_def by blast
  then obtain zs where zs: "owner @ CHR ''/'' # repo = ''http://'' @ zs \<or>
                 owner @ CHR ''/'' # repo = ''https://'' @ zs" by blast
  have no: "\<And>x. x \<in> set owner \<Longrightarrow> ?P x" using plain_name_ends(5)[OF o] by auto
  have "dropWhile ?P (owner @ CHR ''/'' # repo) = CHR ''/'' # repo"
    using no by (simp add: dropWhile_append)
  moreover have "dropWhile ?P (''http://'' @ zs) = ''//'' @ zs"
    "dropWhile ?P (''https://'' @ zs) = ''//'' @ zs"
    by simp_all
  ultimately have "CHR ''/'' # repo = ''//'' @ zs" using zs by metis
  then have "hd repo = CHR ''/''" by (cases repo) auto
  then show False using plain_name_ends(3)[OF r] by simp
qed

text \<open>
  Claim C8.  For every owner and repository name that is plain (not empty, without
  whitespace and without \<open>/\<close>, \<open>?\<close>, \<open>#\<close>, \<open>;\<close>), the bare identifier \<open>owner/repo\<close> and the URL
  \<open>http(s)://github.com/owner/repo\<close>, alone or followed by any further text that starts with
  \<open>/\<close> (extra path segments, a query, a fragment, trailing whitespace), resolve to the same
  pair \<open>(owner, repo)\<close>.
\<close>

theorem resolve_bare_and_url_agree:
  assumes o: "plain_name owner" and r: "plain_name repo"
    and sch: "sch = ''http'' \<or> sch = ''https''"
    and x: "extra = [] \<or> hd extra = CHR ''/''"
  shows "parse_repo_identifier (owner @ ''/'' @ repo) = Inr (owner, repo) \<and>
         parse_repo_identifier (sch @ ''://github.com/'' @ owner @ ''/'' @ repo @ extra) =
           Inr (owner, repo)"
proof
  let ?c = "CHR ''/''"
  let ?b = "owner @ ?c # repo"
  have bne: "?b \<noteq> []" by simp
  have hb: "hd ?b = hd owner" using plain_nameD(1)[OF o] by simp
  have lb: "last ?b = last repo" using plain_nameD(1)[OF r] by simp
  have "\<exists>z. strip (?b @ []) = ?b @ z \<and> ([] = ([]::string) \<longrightarrow> z = []) \<and> (z \<noteq> [] \<longrightarrow> hd z = hd [])"
    using plain_name_ends(1)[OF o] plain_name_ends(2)[OF r] hb lb
    by (intro strip_keep) (simp_all del: hd_append2 last_appendR last_ConsR)
  then have sb: "strip ?b = ?b" by auto
  have sp: "py_split ?c ?b = [owner, repo]"
    using plain_name_ends(5)[OF o] plain_name_ends(5)[OF r]
    by (simp add: py_split_append py_split_no_sep)
  show "parse_repo_identifier (owner @ ''/'' @ repo) = Inr (owner, repo)"
    using bare_not_url[OF o r] sp sb by (simp add: parse_unfold)
next
  let ?c = "CHR ''/''"
  let ?b = "owner @ ?c # repo"
  let ?a = "sch @ ''://github.com/'' @ ?b"
  have ane: "?a \<noteq> []" by simp
  have ha: "\<not> is_space (hd ?a)" using sch by (auto simp: is_space_def)
  have la: "\<not> is_space (last ?a)"
    using plain_nameD(1)[OF r] plain_name_ends(2)[OF r] by simp
  obtain z where z: "strip (?a @ extra) = ?a @ z" "z \<noteq> [] \<longrightarrow> hd z = hd extra"
    "extra = [] \<longrightarrow> z = []"
    using strip_keep[OF ane ha la, of extra] by blast
  have z': "z = [] \<or> hd z = ?c" using z(2,3) x by auto
  have url: "is_http_url (?a @ z)" using sch by (auto simp: is_http_url_def)
  obtain y where y: "urlparse (sch @ ''://github.com/'' @ owner @ ?c # repo @ z) =
       (''github.com'', ?c # owner @ ?c # repo @ y)" "y \<noteq> [] \<longrightarrow> hd y = ?c"
    using urlparse_github[OF o r sch z'] by blast
  have bne: "?b \<noteq> []" by simp
  have hb: "hd ?b \<noteq> ?c" using plain_nameD(1)[OF o] plain_name_ends(3)[OF o] by simp
  have lb: "last ?b \<noteq> ?c" using plain_nameD(1)[OF r] plain_name_ends(4)[OF r] by simp
  obtain w where w: "strip_chars ?c (?c # ?b @ y) = ?b @ w" "w \<noteq> [] \<longrightarrow> hd w = hd y"
    "y = [] \<longrightarrow> w = []"
    using strip_chars_keep[OF bne hb lb, of y] by blast
  have w': "w = [] \<or> (\<exists>v. w = ?c # v)"
    using w(2,3) y(2) by (cases w) auto
  have "\<exists>ps. py_split ?c (?b @ w) = owner # repo # ps"
  proof -
    have 1: "py_split ?c (owner @ ?c # (repo @ w)) = owner # py_split ?c (repo @ w)"
      using plain_name_ends(5)[OF o] by (rule py_split_append)
    have "\<exists>ps. py_split ?c (repo @ w) = repo # ps"
      using w' plain_name_ends(5)[OF r] by (auto simp: py_split_no_sep py_split_append)
    then show ?thesis using 1 by auto
  qed
  then obtain ps where ps: "py_split ?c (?b @ w) = owner # repo # ps" by blast
  have t: "strip (sch @ ''://github.com/'' @ owner @ ''/'' @ repo @ extra) =
      sch @ ''://github.com/'' @ owner @ ?c # repo @ z"
    using z(1) by simp
  have u: "is_http_url (sch @ ''://github.com/'' @ owner @ ?c # repo @ z)"
    using url by simp
  have sc: "strip_chars ?c (?c # owner @ ?c # repo @ y) = ?b @ w"
    using w(1) by simp
  show "parse_repo_identifier (sch @ ''://github.com/'' @ owner @ ''/'' @ repo @ extra) =
           Inr (owner, repo)"
    unfolding parse_unfold t using u by (simp only: y(1) fst_conv snd_conv sc ps if_True) simp
qed

theorem resolve_bare_and_url_agree_witness:
  "plain_name ''octocat'' \<and> plain_name ''Hello-World'' \<and>
   parse_repo_identifier ''octocat/Hello-World'' = Inr (''octocat'', ''Hello-World'') \<and>
   parse_repo_identifier ''https://github.com/octocat/Hello-World/tree/main?tab=readme'' =
     Inr (''octocat'', ''Hello-World'')"
proof -
  have o: "plain_name ''octocat''" by (simp add: plain_name_def is_space_def)
  have r: "plain_name ''Hello-World''" by (simp add: plain_name_def is_space_def)
  have x: "''/tree/main?tab=readme'' = [] \<or> hd ''/tree/main?tab=readme'' = CHR ''/''" by simp
  have s: "''https'' = ''http'' \<or> ''https'' = ''https''" by simp
  show ?thesis
    using o r resolve_bare_and_url_agree [OF o r s x] by simp
qed


section \<open>The acceptance filter of email discovery\<close>

lemma py_get_Inr_dict: "py_get d k dflt = Inr v \<Longrightarrow> \<exists>kvs. d = JDict kvs"
  by (cases d) auto

lemma py_get_found:
  assumes "py_get d k dflt = Inr v" "v \<noteq> dflt"
  shows "py_index d k = Inr v"
  using assms by (cases d) (auto split: option.splits)

lemma check_candidate_str:
  "check_candidate (JStr s) = Inr (if accept_email s then Some s else None)"
  by (simp add: check_candidate_def accept_email_def)

lemma commit_email_str:
  assumes "py_get commit ''author'' (JDict []) = Inr a" "py_get a ''email'' JNull = Inr (JStr s)"
  shows "commit_email commit = Inr (if accept_email s then Some s else None)"
proof (cases "s = []")
  case True
  then show ?thesis using assms by (simp add: commit_email_def err_bind_def accept_email_def)
next
  case False
  have e: "py_index a ''email'' = Inr (JStr s)"
    using assms(2) by (rule py_get_found) simp
  have "a \<noteq> JDict []" using assms(2) by auto
  then have "py_index commit ''author'' = Inr a"
    using assms(1) by (intro py_get_found)
  then show ?thesis
    using assms e False by (simp add: commit_email_def err_bind_def check_candidate_str)
qed

lemma repo_commit_email_str:
  assumes "py_get commit ''commit'' (JDict []) = Inr i" "py_get i ''author'' (JDict []) = Inr a"
    "py_get a ''email'' JNull = Inr (JStr s)"
  shows "repo_commit_email commit = Inr (if accept_email s then Some s else None)"
proof (cases "s = []")
  case True
  then show ?thesis using assms by (simp add: repo_commit_email_def err_bind_def accept_email_def)
next
  case False
  have e: "py_index a ''email'' = Inr (JStr s)"
    using assms(3) by (rule py_get_found) simp
  have a: "a \<noteq> JDict []" using assms(3) by auto
  then have ia: "py_index i ''author'' = Inr a"
    using assms(2) by (intro py_get_found)
  have "i \<noteq> JDict []" using assms(2) a by auto
  then have "py_index commit ''commit'' = Inr i"
    using assms(1) by (intro py_get_found)
  then show ?thesis
    using assms e ia False by (simp add: repo_commit_email_def err_bind_def check_candidate_str)
qed

text \<open>
  Claim C5.  A candidate string is accepted if and only if it is not empty, contains \<open>@\<close>,
  does not end with \<open>@users.noreply.github.com\<close> and does not start with \<open>noreply\<close>; so
  \<open>foo@users.noreply.github.com\<close> and \<open>noreply@company.com\<close> are rejected and
  \<open>jane@example.com\<close> is accepted.  The three strategies apply this one test: a commit of an
  event payload (first and second strategy) and a commit of a repository (third strategy)
  whose author email is the string \<open>s\<close> yield \<open>s\<close> when it is accepted and nothing otherwise.
\<close>

theorem email_acceptance_filter:
  "(accept_email s \<longleftrightarrow>
      s \<noteq> [] \<and> CHR ''@'' \<in> set s \<and> \<not> suffix ''@users.noreply.github.com'' s \<and>
      \<not> prefix ''noreply'' s) \<and>
   \<not> accept_email ''foo@users.noreply.github.com'' \<and>
   \<not> accept_email ''noreply@company.com'' \<and>
   accept_email ''jane@example.com'' \<and>
   (py_get commit ''author'' (JDict []) = Inr a \<and> py_get a ''email'' JNull = Inr (JStr s) \<longrightarrow>
      commit_email commit = Inr (if accept_email s then Some s else None)) \<and>
   (py_get rcommit ''commit'' (JDict []) = Inr ri \<and> py_get ri ''author'' (JDict []) = Inr ra \<and>
    py_get ra ''email'' JNull = Inr (JStr s) \<longrightarrow>
      repo_commit_email rcommit = Inr (if accept_email s then Some s else None))"
proof -
  have 1: "accept_email s \<longleftrightarrow>
      s \<noteq> [] \<and> CHR ''@'' \<in> set s \<and> \<not> suffix ''@users.noreply.github.com'' s \<and>
      \<not> prefix ''noreply'' s"
    by (auto simp: accept_email_def)
  have 2: "\<not> accept_email ''foo@users.noreply.github.com''"
    by (simp add: accept_email_def suffix_to_prefix)
  have 3: "\<not> accept_email ''noreply@company.com''"
    by (simp add: accept_email_def)
  have 4: "accept_email ''jane@example.com''"
    by (simp add: accept_email_def suffix_to_prefix)
  show ?thesis
    using 1 2 3 4 commit_email_str repo_commit_email_str by blast
qed

theorem email_acceptance_filter_witness:
  "commit_email (JDict [(''author'', JDict [(''email'', JStr ''jane@example.com'')])]) =
     Inr (Some ''jane@example.com'') \<and>
   repo_commit_email
     (JDict [(''commit'', JDict [(''author'', JDict [(''email'', JStr ''noreply@company.com'')])])]) =
     Inr None"
proof -
  let ?a1 = "JDict [(''email'', JStr ''jane@example.com'')]"
  let ?c1 = "JDict [(''author'', ?a1)]"
  let ?a2 = "JDict [(''email'', JStr ''noreply@company.com'')]"
  let ?i2 = "JDict [(''author'', ?a2)]"
  let ?c2 = "JDict [(''commit'', ?i2)]"
  have h1: "py_get ?c1 ''author'' (JDict []) = Inr ?a1 \<and>
            py_get ?a1 ''email'' JNull = Inr (JStr ''jane@example.com'')"
    by simp
  have h2: "py_get ?c2 ''commit'' (JDict []) = Inr ?i2 \<and> py_get ?i2 ''author'' (JDict []) = Inr ?a2 \<and>
            py_get ?a2 ''email'' JNull = Inr (JStr ''noreply@company.com'')"
    by simp
  have t1: "accept_email ''jane@example.com''" and t2: "\<not> accept_email ''noreply@company.com''"
    using email_acceptance_filter [of "''jane@example.com''" ?c1 ?a1 ?c2 ?i2 ?a2]
    by blast+
  have "commit_email ?c1 = Inr (if accept_email ''jane@example.com'' then Some ''jane@example.com'' else None)"
    using email_acceptance_filter [of "''jane@example.com''" ?c1 ?a1 ?c2 ?i2 ?a2] h1 by blast
  moreover have "repo_commit_email ?c2 =
      Inr (if accept_email ''noreply@company.com'' then Some ''noreply@company.com'' else None)"
    using email_acceptance_filter [of "''noreply@company.com''" ?c1 ?a1 ?c2 ?i2 ?a2] h2 by blast
  ultimately show ?thesis using t1 t2 by simp
qed

section \<open>Rate limiting in the transport\<close>



text \<open>With a header that is not a decimal integer the \<open>ValueError\<close> of \<open>int\<close> is what the caller
  sees.\<close>

lemma rate_limited_malformed_header:
  assumes "session_get E (world c) \<lparr>req_endpoint = endpoint, req_params = params\<rparr> = (Response r, w')"
    and "status_code r = 429"
    and "rate_limit_reset r = Inl e"
  shows "fst (make_request E endpoint params c) = Inl e"
  using assms by (simp add: make_request_def classify_def Let_def)


section \<open>The cascade of email discovery\<close>

lemma make_request_log:
  assumes "make_request E endpoint params c = (res, c')"
  shows "calls c' = calls c @ [(\<lparr>req_endpoint = endpoint, req_params = params\<rparr>, res)]"
    and "world c' = snd (session_get E (world c) \<lparr>req_endpoint = endpoint, req_params = params\<rparr>)"
  using assms by (auto simp: make_request_def Let_def split: prod.splits)

lemma first_some_Some:
  "first_some f xs = Inr (Some r) \<Longrightarrow> \<exists>x. x \<in> set xs \<and> f x = Inr (Some r)"
proof (induction xs)
  case Nil
  then show ?case by simp
next
  case (Cons x xs)
  then show ?case by (cases "f x") (auto split: option.splits)
qed

lemma check_candidate_Some: "check_candidate v = Inr (Some s) \<Longrightarrow> accept_email s"
  by (cases v) (auto simp: check_candidate_def split: if_splits)

lemma commit_email_Some: "commit_email commit = Inr (Some s) \<Longrightarrow> accept_email s"
  by (auto simp: commit_email_def err_bind_def split: sum.splits if_splits
        dest: check_candidate_Some)

lemma repo_commit_email_Some: "repo_commit_email commit = Inr (Some s) \<Longrightarrow> accept_email s"
  by (auto simp: repo_commit_email_def err_bind_def split: sum.splits if_splits
        dest: check_candidate_Some)

lemma push_event_email_Some: "push_event_email event = Inr (Some s) \<Longrightarrow> accept_email s"
  by (auto simp: push_event_email_def err_bind_def split: sum.splits if_splits
        dest!: first_some_Some commit_email_Some)

lemma create_event_email_Some: "create_event_email event = Inr (Some s) \<Longrightarrow> accept_email s"
  by (auto simp: create_event_email_def err_bind_def split: sum.splits if_splits
        dest!: first_some_Some commit_email_Some)

lemma from_commits_log:
  assumes "extract_email_from_commits E username c = (r, c')"
  shows "\<exists>res. calls c' = calls c @
           [(\<lparr>req_endpoint = ''/users/'' @ username @ ''/events'',
              req_params = [(''per_page'', JInt 30)]\<rparr>, res)]"
  using assms
  by (auto simp: extract_email_from_commits_def split: prod.splits sum.splits
        dest: make_request_log(1))

lemma from_commits_accepts:
  assumes "extract_email_from_commits E username c = (Some s, c')"
  shows "accept_email s"
  using assms
  by (auto simp: extract_email_from_commits_def caught_def err_bind_def
        split: prod.splits sum.splits dest!: first_some_Some push_event_email_Some)

lemma from_events_log:
  assumes "extract_email_from_events E username c = (r, c')"
  shows "\<exists>res. calls c' = calls c @
           [(\<lparr>req_endpoint = ''/users/'' @ username @ ''/events/public'',
              req_params = [(''per_page'', JInt 30)]\<rparr>, res)]"
  using assms
  by (auto simp: extract_email_from_events_def split: prod.splits sum.splits
        dest: make_request_log(1))

lemma from_events_accepts:
  assumes "extract_email_from_events E username c = (Some s, c')"
  shows "accept_email s"
  using assms
  by (auto simp: extract_email_from_events_def caught_def err_bind_def
        split: prod.splits sum.splits dest!: first_some_Some create_event_email_Some)

lemma check_repos_log:
  "check_repos E username repos c = (r, c') \<Longrightarrow>
     \<exists>new. calls c' = calls c @ new \<and> length new \<le> length repos"
proof (induction repos arbitrary: c)
  case Nil
  then show ?case by simp
next
  case (Cons repo rest)
  have step: "\<exists>new. calls c' = calls c @ new \<and> length new \<le> Suc (length rest)"
    if m: "make_request E ep ps c = (res, c1)" and r: "check_repos E username rest c1 = (r, c')"
    for ep ps res c1
  proof -
    obtain new where "calls c' = calls c1 @ new" "length new \<le> length rest"
      using Cons.IH[OF r] by blast
    then show ?thesis using make_request_log(1)[OF m] by simp
  qed
  have skip: "\<exists>new. calls c' = calls c @ new \<and> length new \<le> Suc (length rest)"
    if r: "check_repos E username rest c = (r, c')"
    using Cons.IH[OF r] by auto
  have one: "\<exists>new. calls c' = calls c @ new \<and> length new \<le> Suc (length rest)"
    if m: "make_request E ep ps c = (res, c')" for ep ps res
    using make_request_log(1)[OF m] by simp
  have zero: "\<exists>new. calls c = calls c @ new \<and> length new \<le> Suc (length rest)"
    by simp
  show ?case
    using Cons.prems step skip one zero
    by (auto simp del: append_assoc split: sum.splits if_splits prod.splits option.splits)
qed

lemma check_repos_accepts:
  "check_repos E username repos c = (Some s, c') \<Longrightarrow> accept_email s"
proof (induction repos arbitrary: c)
  case Nil
  then show ?case by simp
next
  case (Cons repo rest)
  then show ?case
    by (auto simp: err_bind_def split: sum.splits if_splits prod.splits option.splits
          dest!: first_some_Some repo_commit_email_Some)
qed

lemma py_slice3_length: "py_slice3 v = Inr xs \<Longrightarrow> length xs \<le> 3"
  by (cases v) auto

lemma from_user_repos_log:
  assumes "extract_email_from_user_repos E username c = (r, c')"
  shows "\<exists>res new. calls c' = calls c @
           (\<lparr>req_endpoint = ''/users/'' @ username @ ''/repos'',
              req_params = [(''per_page'', JInt 10), (''sort'', JStr ''updated'')]\<rparr>, res) # new \<and>
           length new \<le> 3"
proof -
  obtain res c1 where m: "make_request E (''/users/'' @ username @ ''/repos'')
             [(''per_page'', JInt 10), (''sort'', JStr ''updated'')] c = (res, c1)"
    by (cases "make_request E (''/users/'' @ username @ ''/repos'')
             [(''per_page'', JInt 10), (''sort'', JStr ''updated'')] c") auto
  note l = make_request_log(1)[OF m]
  show ?thesis
  proof (cases res)
    case (Inl e)
    then have "c' = c1" using assms m by (simp add: extract_email_from_user_repos_def)
    then show ?thesis using l by simp
  next
    case (Inr repos)
    show ?thesis
    proof (cases "py_slice3 repos")
      case (Inl e)
      then have "c' = c1" using assms m Inr by (simp add: extract_email_from_user_repos_def)
      then show ?thesis using l by simp
    next
      case (Inr first3)
      then have "check_repos E username first3 c1 = (r, c')"
        using assms m \<open>res = Inr repos\<close> by (simp add: extract_email_from_user_repos_def)
      then obtain new where "calls c' = calls c1 @ new" "length new \<le> length first3"
        using check_repos_log by blast
      then show ?thesis using l py_slice3_length[OF Inr] by simp
    qed
  qed
qed

lemma from_user_repos_accepts:
  assumes "extract_email_from_user_repos E username c = (Some s, c')"
  shows "accept_email s"
  using assms
  by (auto simp: extract_email_from_user_repos_def split: prod.splits sum.splits
        dest: check_repos_accepts)

lemma kwargs_Inr_map_of:
  "kwargs args = Inr kw \<Longrightarrow> map_of args k = Some (Inr v) \<Longrightarrow> map_of kw k = Some v"
proof (induction args arbitrary: kw rule: kwargs.induct)
  case 1
  then show ?case by simp
next
  case (2 k' e rest)
  then show ?case by simp
next
  case (3 k' v' rest)
  then show ?case by (auto split: sum.splits if_splits)
qed

lemma UserInfo_email:
  assumes "UserInfo E kw = Inr ui" "map_of kw ''email'' = Some em"
  shows "em = JNull \<longrightarrow> user_email ui = None" "em = JStr s \<longrightarrow> user_email ui = Some s"
proof -
  have e: "opt_str E kw ''email'' \<noteq> None" and u: "user_email ui = the (opt_str E kw ''email'')"
    using assms(1) by (auto simp: UserInfo_def Let_def split: if_splits)
  show "em = JNull \<longrightarrow> user_email ui = None"
    using u assms(2) by (simp add: opt_str_def)
  show "em = JStr s \<longrightarrow> user_email ui = Some s"
    using u assms(2) by (simp add: opt_str_def str_field_def)
qed

lemma get_user_info_email:
  assumes m: "make_request E (''/users/'' @ username) [] c = (Inr data, c')"
    and p: "py_get data ''email'' JNull = Inr profile_email"
    and d: "discover_email E username profile_email aggressive c' = (em, c'')"
    and g: "get_user_info E username aggressive c = (Inr ui, c3)"
  shows "c3 = c'' \<and> (em = JNull \<longrightarrow> user_email ui = None) \<and> (em = JStr s \<longrightarrow> user_email ui = Some s)"
proof -
  let ?args = "[(''login'', py_index data ''login''),
                           (''name'', py_get data ''name'' JNull),
                           (''email'', Inr em),
                           (''location'', py_get data ''location'' JNull),
                           (''company'', py_get data ''company'' JNull),
                           (''bio'', py_get data ''bio'' JNull),
                           (''blog'', py_get data ''blog'' JNull),
                           (''twitter_username'', py_get data ''twitter_username'' JNull),
                           (''public_repos'', py_index data ''public_repos''),
                           (''followers'', py_index data ''followers''),
                           (''following'', py_index data ''following''),
                           (''created_at'', py_index data ''created_at''),
                           (''updated_at'', py_index data ''updated_at''),
                           (''avatar_url'', py_index data ''avatar_url''),
                           (''html_url'', py_index data ''html_url'')]"
  have g': "get_user_info E username aggressive c = (err_bind (kwargs ?args) (UserInfo E), c'')"
    unfolding get_user_info_def m by (simp add: p d)
  then have c3: "c3 = c''" and r: "err_bind (kwargs ?args) (UserInfo E) = Inr ui"
    using g by simp_all
  obtain kw where kw: "kwargs ?args = Inr kw" and ui: "UserInfo E kw = Inr ui"
    using r by (cases "kwargs ?args") (auto simp: err_bind_def)
  have "map_of ?args ''email'' = Some (Inr em)" by simp
  then have "map_of kw ''email'' = Some em"
    using kw by (rule kwargs_Inr_map_of[rotated])
  then show ?thesis using UserInfo_email[OF ui] c3 by blast
qed

text \<open>
  Claim C4.  The \<open>email\<close> of \<open>get_user_info\<close> is the profile's value, unchanged and with no
  further request, unless that value is absent (false in Python's sense: \<open>None\<close> or empty)
  and aggressive extraction is enabled.  In that case the strategy on push events runs
  first; its accepted candidate, if any, is the result, and the state is the one that
  strategy left: one request, to the events endpoint, and none of a later strategy.
  Otherwise the strategy on public events runs next, with the same rule, and otherwise the
  strategy on the user's repositories, whose result is the result: an accepted candidate,
  or nothing, which is the absent value and no error.  The value so settled is the one the
  returned record carries.
\<close>

theorem email_discovery_cascade:
  "(truthy email \<or> \<not> aggressive \<longrightarrow> discover_email E username email aggressive c = (email, c)) \<and>
   (\<not> truthy email \<and> aggressive \<and> extract_email_from_commits E username c = (Some s, c1) \<longrightarrow>
      discover_email E username email aggressive c = (JStr s, c1) \<and> accept_email s \<and>
      map fst (calls c1) = map fst (calls c) @
        [\<lparr>req_endpoint = ''/users/'' @ username @ ''/events'',
          req_params = [(''per_page'', JInt 30)]\<rparr>]) \<and>
   (\<not> truthy email \<and> aggressive \<and> extract_email_from_commits E username c = (None, c1) \<and>
    extract_email_from_events E username c1 = (Some s, c2) \<longrightarrow>
      discover_email E username email aggressive c = (JStr s, c2) \<and> accept_email s \<and>
      map fst (calls c2) = map fst (calls c) @
        [\<lparr>req_endpoint = ''/users/'' @ username @ ''/events'',
          req_params = [(''per_page'', JInt 30)]\<rparr>,
         \<lparr>req_endpoint = ''/users/'' @ username @ ''/events/public'',
          req_params = [(''per_page'', JInt 30)]\<rparr>]) \<and>
   (\<not> truthy email \<and> aggressive \<and> extract_email_from_commits E username c = (None, c1) \<and>
    extract_email_from_events E username c1 = (None, c2) \<and>
    extract_email_from_user_repos E username c2 = (r, c3) \<longrightarrow>
      discover_email E username email aggressive c = (of_found r, c3) \<and>
      (r = None \<longrightarrow> fst (discover_email E username email aggressive c) = JNull) \<and>
      (r = Some s \<longrightarrow> fst (discover_email E username email aggressive c) = JStr s \<and>
         accept_email s)) \<and>
   (make_request E (''/users/'' @ username) [] c = (Inr data, c') \<and>
    py_get data ''email'' JNull = Inr profile_email \<and>
    discover_email E username profile_email aggressive c' = (em, c'') \<and>
    get_user_info E username aggressive c = (Inr ui, c4) \<longrightarrow>
      c4 = c'' \<and> (em = JNull \<longrightarrow> user_email ui = None) \<and> (em = JStr s \<longrightarrow> user_email ui = Some s))"
proof -
  have A: "truthy email \<or> \<not> aggressive \<longrightarrow> discover_email E username email aggressive c = (email, c)"
    by (auto simp: discover_email_def)
  have B: "discover_email E username email aggressive c = (JStr s, c1) \<and> accept_email s \<and>
      map fst (calls c1) = map fst (calls c) @
        [\<lparr>req_endpoint = ''/users/'' @ username @ ''/events'',
          req_params = [(''per_page'', JInt 30)]\<rparr>]"
    if "\<not> truthy email" aggressive "extract_email_from_commits E username c = (Some s, c1)"
    using that from_commits_log[OF that(3)] from_commits_accepts[OF that(3)]
    by (auto simp: discover_email_def)
  have C: "discover_email E username email aggressive c = (JStr s, c2) \<and> accept_email s \<and>
      map fst (calls c2) = map fst (calls c) @
        [\<lparr>req_endpoint = ''/users/'' @ username @ ''/events'',
          req_params = [(''per_page'', JInt 30)]\<rparr>,
         \<lparr>req_endpoint = ''/users/'' @ username @ ''/events/public'',
          req_params = [(''per_page'', JInt 30)]\<rparr>]"
    if "\<not> truthy email" aggressive "extract_email_from_commits E username c = (None, c1)"
      "extract_email_from_events E username c1 = (Some s, c2)"
    using that from_commits_log[OF that(3)] from_events_log[OF that(4)]
      from_events_accepts[OF that(4)]
    by (auto simp: discover_email_def)
  have D: "discover_email E username email aggressive c = (of_found r, c3) \<and>
      (r = None \<longrightarrow> fst (discover_email E username email aggressive c) = JNull) \<and>
      (r = Some s \<longrightarrow> fst (discover_email E username email aggressive c) = JStr s \<and>
         accept_email s)"
    if "\<not> truthy email" aggressive "extract_email_from_commits E username c = (None, c1)"
      "extract_email_from_events E username c1 = (None, c2)"
      "extract_email_from_user_repos E username c2 = (r, c3)"
    using that from_user_repos_accepts[of E username c2 s c3]
    by (auto simp: discover_email_def of_found_def)
  show ?thesis
    using A B C D get_user_info_email[of E username c data c' profile_email aggressive em c'' ui c4 s]
    by blast
qed

lemma sample_env_sel:
  "session_get sample_env = sample_get"
  "time_now sample_env = (\<lambda>w. 1000)"
  "coerce_str sample_env = (\<lambda>v. None)"
  "coerce_int sample_env = (\<lambda>v. None)"
  "parse_datetime sample_env = (\<lambda>v. None)"
  by (simp_all add: sample_env_def)

lemmas sample_simps =
  make_request_def classify_def sample_env_sel sample_get_def ok_def start_def Let_def
  err_bind_def caught_def

lemma sample_alice_commits:
  "fst (extract_email_from_commits sample_env ''alice'' c) = None"
  by (simp add: sample_simps extract_email_from_commits_def push_event_email_def
        commit_email_def check_candidate_def accept_email_def commit_by_def suffix_to_prefix)

lemma sample_alice_events:
  "fst (extract_email_from_events sample_env ''alice'' c) = Some ''alice@example.com''"
  by (simp add: sample_simps extract_email_from_events_def create_event_email_def
        commit_email_def check_candidate_def accept_email_def commit_by_def suffix_to_prefix)

theorem email_discovery_cascade_witness:
  "fst (discover_email sample_env ''alice'' JNull True start) = JStr ''alice@example.com'' \<and>
   map (\<lambda>x. req_endpoint (fst x)) (calls (snd (discover_email sample_env ''alice'' JNull True start))) =
     [''/users/alice/events'', ''/users/alice/events/public''] \<and>
   discover_email sample_env ''carol'' (JStr ''carol@example.com'') True start =
     (JStr ''carol@example.com'', start)"
proof -
  define c1 where "c1 = snd (extract_email_from_commits sample_env ''alice'' start)"
  define c2 where "c2 = snd (extract_email_from_events sample_env ''alice'' c1)"
  have s1: "extract_email_from_commits sample_env ''alice'' start = (None, c1)"
    using sample_alice_commits[of start] by (simp add: c1_def prod_eq_iff)
  have s2: "extract_email_from_events sample_env ''alice'' c1 = (Some ''alice@example.com'', c2)"
    using sample_alice_events[of c1] by (simp add: c2_def prod_eq_iff)
  have h: "\<not> truthy JNull \<and> True" by simp
  have d: "discover_email sample_env ''alice'' JNull True start = (JStr ''alice@example.com'', c2) \<and>
      map fst (calls c2) = map fst (calls start) @
        [\<lparr>req_endpoint = ''/users/'' @ ''alice'' @ ''/events'',
          req_params = [(''per_page'', JInt 30)]\<rparr>,
         \<lparr>req_endpoint = ''/users/'' @ ''alice'' @ ''/events/public'',
          req_params = [(''per_page'', JInt 30)]\<rparr>]"
    using email_discovery_cascade [of JNull True sample_env "''alice''" start "''alice@example.com''"
        c1 c2] h s1 s2
    by blast
  have "map (\<lambda>x. req_endpoint (fst x)) (calls c2) = map req_endpoint (map fst (calls c2))"
    by simp
  also have "\<dots> = [''/users/alice/events'', ''/users/alice/events/public'']"
    using d by (simp add: start_def)
  finally have l: "map (\<lambda>x. req_endpoint (fst x)) (calls c2) =
      [''/users/alice/events'', ''/users/alice/events/public'']" .
  have k: "truthy (JStr ''carol@example.com'') \<or> \<not> True" by simp
  have e: "discover_email sample_env ''carol'' (JStr ''carol@example.com'') True start =
     (JStr ''carol@example.com'', start)"
    using email_discovery_cascade [of "JStr ''carol@example.com''" True sample_env "''carol''" start]
      k by blast
  show ?thesis using d l e by simp
qed


section \<open>The paginator\<close>

lemma served_Cons: "served E w (rq # rqs) = served E (snd (session_get E w rq)) rqs"
  by (simp add: served_def)

lemma served_Nil: "served E w [] = w"
  by (simp add: served_def)

lemma paginate_users_loop_walk:
  assumes "paginate_users_loop E endpoint per_page max_pages page users c = Some y"
  shows "\<exists>new. calls (snd y) = calls c @ new \<and>
           world (snd y) = served E (world c) (map fst new) \<and>
           walk_trace (page_users E) endpoint per_page max_pages page new \<and>
           fst y = with_users users (collected (page_users E) (map snd new))"
proof (induct rule: paginate_users_loop.raw_induct [OF _ assms])
  case (1 loop E endpoint per_page max_pages page users c y)
  let ?W = "\<lambda>page users c y new. calls (snd y) = calls c @ new \<and>
           world (snd y) = served E (world c) (map fst new) \<and>
           walk_trace (page_users E) endpoint per_page max_pages page new \<and>
           fst y = with_users users (collected (page_users E) (map snd new))"
  show ?case
  proof (cases "limit_passed max_pages page")
    case True
    then have "y = (Inr users, c)" using 1(2) by simp
    then have "?W page users c y []" using True by (simp add: served_Nil with_users_def)
    then show ?thesis by blast
  next
    case False
    obtain res c1 where m: "make_request E endpoint (page_params page per_page) c = (res, c1)"
      by (cases "make_request E endpoint (page_params page per_page) c") auto
    let ?x = "(page_request endpoint per_page page, res)"
    have l: "calls c1 = calls c @ [?x]"
      and w: "world c1 = served E (world c) [page_request endpoint per_page page]"
      using make_request_log[OF m] by (simp_all add: page_request_def served_def)
    show ?thesis
    proof (cases "ends_walk (page_users E) res")
      case True
      have "y = (with_users users (collected (page_users E) [res]), c1)"
        using 1(2) False m True
        by (cases res) (auto simp: ends_walk_def with_users_def isl_def split: if_splits)
      then have "?W page users c y [?x]"
        using l w False True by simp
      then show ?thesis by blast
    next
      case nostop: False
      then obtain data us where res: "res = Inr data" and t: "truthy data"
        and p: "page_users E data = Inr us"
        by (cases res; cases "page_users E (projr res)") (auto simp: ends_walk_def)
      have "loop E endpoint per_page max_pages (page + 1) (users @ us) c1 = Some y"
        using 1(2) False m res t p by simp
      then obtain new where n: "?W (page + 1) (users @ us) c1 y new"
        using 1(1) by blast
      have "?W page users c y (?x # new)"
        using n l w False nostop res t p
        by (simp add: served_def with_users_def split: sum.splits)
      then show ?thesis by blast
    qed
  qed
qed

lemma walk_requests:
  "walk_trace proj endpoint per_page max_pages page new \<Longrightarrow>
     map fst new = map (page_request endpoint per_page) [page..page + int (length new) - 1]"
proof (induction new arbitrary: page)
  case Nil
  then show ?case by simp
next
  case (Cons x rest)
  have "[page..page + int (length (x # rest)) - 1] = page # [page + 1..page + 1 + int (length rest) - 1]"
    by (simp add: upto_rec1)
  then show ?case using Cons by (auto split: if_splits)
qed

lemma walk_no_early_stop:
  "walk_trace proj endpoint per_page max_pages page new \<Longrightarrow>
     list_all (\<lambda>res. \<not> ends_walk proj res) (butlast (map snd new))"
  by (induction new arbitrary: page) (auto split: if_splits)

lemma walk_stop_reason:
  "walk_trace proj endpoint per_page max_pages page new \<Longrightarrow>
     (new \<noteq> [] \<and> ends_walk proj (snd (last new))) \<or>
     limit_passed max_pages (page + int (length new))"
proof (induction new arbitrary: page)
  case Nil
  then show ?case by simp
next
  case (Cons x rest)
  show ?case
  proof (cases "ends_walk proj (snd x)")
    case True
    then show ?thesis using Cons.prems by simp
  next
    case False
    then have "walk_trace proj endpoint per_page max_pages (page + 1) rest"
      using Cons.prems by simp
    from Cons.IH[OF this]
    have d: "(rest \<noteq> [] \<and> ends_walk proj (snd (last rest))) \<or>
        limit_passed max_pages (page + 1 + int (length rest))" .
    have e: "page + 1 + int (length rest) = page + int (length (x # rest))"
      by simp
    show ?thesis using d unfolding e by auto
  qed
qed







lemma minimal_sample: "minimal_user E (list_item l) = Inr (sample_user l)"
  by (simp add: err_bind_def minimal_user_def list_item_def UserInfo_def sample_user_def
        Let_def req_str_def opt_str_def dflt_int_def opt_datetime_def str_field_def)

lemmas walk_simps =
  paginate_users_def paginate_users_loop.simps limit_passed_def page_params_def
  sample_simps page_users_def minimal_sample stargazers_endpoint_def




section \<open>A ceiling of zero\<close>

lemma paginate_users_loop_same_limit_Some:
  assumes "paginate_users_loop E endpoint per_page max_pages page users c = Some y"
  shows "(\<forall>p. limit_passed max_pages p = limit_passed other p) \<longrightarrow>
         paginate_users_loop E endpoint per_page other page users c = Some y"
proof (induct rule: paginate_users_loop.raw_induct [OF _ assms])
  case (1 loop E endpoint per_page max_pages page users c y)
  show ?case
  proof
    assume same: "\<forall>p. limit_passed max_pages p = limit_passed other p"
    obtain res c1 where m: "make_request E endpoint (page_params page per_page) c = (res, c1)"
      by (cases "make_request E endpoint (page_params page per_page) c") auto
    show "paginate_users_loop E endpoint per_page other page users c = Some y"
    proof (cases "\<not> limit_passed max_pages page \<and> (\<exists>data us. res = Inr data \<and> truthy data \<and>
        page_users E data = Inr us)")
      case True
      then obtain data us where h: "\<not> limit_passed max_pages page" "res = Inr data" "truthy data"
        "page_users E data = Inr us" by blast
      then have "loop E endpoint per_page max_pages (page + 1) (users @ us) c1 = Some y"
        using 1(2) m by simp
      then have "paginate_users_loop E endpoint per_page other (page + 1) (users @ us) c1 = Some y"
        using 1(1) same by blast
      then show ?thesis
        using h m same by (subst paginate_users_loop.simps) simp
    next
      case False
      then show ?thesis
        using 1(2) m same
        by (subst paginate_users_loop.simps) (auto split: sum.splits if_splits)
    qed
  qed
qed

lemma paginate_users_loop_same_limit:
  assumes "\<And>p. limit_passed max_pages p = limit_passed other p"
  shows "paginate_users_loop E endpoint per_page max_pages page users c =
         paginate_users_loop E endpoint per_page other page users c"
proof (cases "paginate_users_loop E endpoint per_page max_pages page users c")
  case (Some y)
  then show ?thesis
    using paginate_users_loop_same_limit_Some[OF Some, of other] assms by simp
next
  case None
  show ?thesis
  proof (cases "paginate_users_loop E endpoint per_page other page users c")
    case (Some y)
    then show ?thesis
      using paginate_users_loop_same_limit_Some[OF Some, of max_pages] assms by simp
  next
    case n: None
    then show ?thesis using None by simp
  qed
qed

lemma limit_passed_zero: "limit_passed (Some 0) p = limit_passed None p"
  by (simp add: limit_passed_def)


section \<open>The walk over the forks\<close>



lemma get_forks_loop_same_limit_Some:
  assumes "get_forks_loop E endpoint per_page max_pages page users c = Some y"
  shows "(\<forall>p. limit_passed max_pages p = limit_passed other p) \<longrightarrow>
         get_forks_loop E endpoint per_page other page users c = Some y"
proof (induct rule: get_forks_loop.raw_induct [OF _ assms])
  case (1 loop E endpoint per_page max_pages page users c y)
  show ?case
  proof
    assume same: "\<forall>p. limit_passed max_pages p = limit_passed other p"
    obtain res c1 where m: "make_request E endpoint (page_params page per_page) c = (res, c1)"
      by (cases "make_request E endpoint (page_params page per_page) c") auto
    show "get_forks_loop E endpoint per_page other page users c = Some y"
    proof (cases "\<not> limit_passed max_pages page \<and> (\<exists>data us. res = Inr data \<and> truthy data \<and>
        page_fork_owners E data = Inr us)")
      case True
      then obtain data us where h: "\<not> limit_passed max_pages page" "res = Inr data" "truthy data"
        "page_fork_owners E data = Inr us" by blast
      then have "loop E endpoint per_page max_pages (page + 1) (users @ us) c1 = Some y"
        using 1(2) m by simp
      then have "get_forks_loop E endpoint per_page other (page + 1) (users @ us) c1 = Some y"
        using 1(1) same by blast
      then show ?thesis
        using h m same by (subst get_forks_loop.simps) simp
    next
      case False
      then show ?thesis
        using 1(2) m same
        by (subst get_forks_loop.simps) (auto split: sum.splits if_splits)
    qed
  qed
qed

lemma get_forks_loop_same_limit:
  assumes "\<And>p. limit_passed max_pages p = limit_passed other p"
  shows "get_forks_loop E endpoint per_page max_pages page users c =
         get_forks_loop E endpoint per_page other page users c"
proof (cases "get_forks_loop E endpoint per_page max_pages page users c")
  case (Some y)
  then show ?thesis
    using get_forks_loop_same_limit_Some[OF Some, of other] assms by simp
next
  case None
  show ?thesis
  proof (cases "get_forks_loop E endpoint per_page other page users c")
    case (Some y)
    then show ?thesis
      using get_forks_loop_same_limit_Some[OF Some, of max_pages] assms by simp
  next
    case n: None
    then show ?thesis using None by simp
  qed
qed


section \<open>Caps of zero at the public interface\<close>

lemma pages_for_zero: "pages_for (Some 0) per_page = pages_for None per_page"
  by (simp add: pages_for_def cap_given_def)

lemma capped_zero: "capped (Some 0) xs = capped None xs"
  by (simp add: capped_def cap_given_def)

lemma sample_stargazers_unbounded:
  "max_pages = None \<or> max_pages = Some 0 \<Longrightarrow>
   paginate_users sample_env stargazers_endpoint 30 max_pages start =
     Some (Inr [sample_user ''alice'', sample_user ''bob'', sample_user ''carol''],
           \<lparr>world = 3,
            calls = [(page_request stargazers_endpoint 30 1,
                      Inr (JList [list_item ''alice'', list_item ''bob''])),
                     (page_request stargazers_endpoint 30 2,
                      Inr (JList [list_item ''carol''])),
                     (page_request stargazers_endpoint 30 3, Inr (JList []))]\<rparr>)"
  by (auto simp: walk_simps page_request_def)

text \<open>
  Claim C10.  A cap of 0 is the same as no cap: the two paginators with \<open>max_pages = 0\<close>, and
  the two section extractors and the whole extraction with a maximum of 0, do exactly what
  they do without the cap; in particular the list fetched is returned whole.  A walk with
  \<open>max_pages = 0\<close> that returns has made at least one request and has ended at a reply that
  ends a walk (a page without items, or a failure), and at no earlier one.
\<close>

theorem zero_cap_is_no_cap:
  "paginate_users E endpoint per_page (Some 0) c = paginate_users E endpoint per_page None c \<and>
   get_stargazers E owner repo per_page (Some 0) c = get_stargazers E owner repo per_page None c \<and>
   get_forks E owner repo per_page (Some 0) c = get_forks E owner repo per_page None c \<and>
   extract_stargazers E owner repo (Some 0) detailed aggressive c =
     extract_stargazers E owner repo None detailed aggressive c \<and>
   extract_forkers E owner repo (Some 0) detailed aggressive c =
     extract_forkers E owner repo None detailed aggressive c \<and>
   extract_repository_info E url inc_s inc_f (Some 0) (Some 0) detailed aggressive c =
     extract_repository_info E url inc_s inc_f None None detailed aggressive c \<and>
   extract_stargazers E owner repo (Some 0) False aggressive c =
     get_stargazers E owner repo 30 None c \<and>
   extract_forkers E owner repo (Some 0) False aggressive c =
     get_forks E owner repo 30 None c \<and>
   (paginate_users E endpoint per_page (Some 0) c = Some (r, c') \<longrightarrow>
      (\<exists>new. calls c' = calls c @ new \<and> new \<noteq> [] \<and>
             ends_walk (page_users E) (snd (last new)) \<and>
             list_all (\<lambda>res. \<not> ends_walk (page_users E) res) (butlast (map snd new)) \<and>
             map fst new = map (page_request endpoint per_page) [1..int (length new)] \<and>
             r = collected (page_users E) (map snd new)))"
proof -
  have p: "paginate_users E endpoint per_page (Some 0) c = paginate_users E endpoint per_page None c"
    for endpoint
    unfolding paginate_users_def
    by (rule paginate_users_loop_same_limit) (rule limit_passed_zero)
  have f: "get_forks E owner repo per_page (Some 0) c = get_forks E owner repo per_page None c"
    for owner repo c per_page
    unfolding get_forks_def
    by (rule get_forks_loop_same_limit) (rule limit_passed_zero)
  have s: "get_stargazers E owner repo per_page (Some 0) c =
      get_stargazers E owner repo per_page None c" for owner repo c per_page
    unfolding get_stargazers_def paginate_users_def
    by (rule paginate_users_loop_same_limit) (rule limit_passed_zero)
  have es: "extract_stargazers E owner repo (Some 0) detailed aggressive c =
     extract_stargazers E owner repo None detailed aggressive c" for owner repo c
    by (auto simp: extract_stargazers_def pages_for_zero capped_zero
          split: option.splits sum.splits prod.splits)
  have ef: "extract_forkers E owner repo (Some 0) detailed aggressive c =
     extract_forkers E owner repo None detailed aggressive c" for owner repo c
    by (auto simp: extract_forkers_def pages_for_zero capped_zero
          split: option.splits sum.splits prod.splits)
  have ss: "stargazers_section E owner repo inc_s (Some 0) detailed aggressive =
      stargazers_section E owner repo inc_s None detailed aggressive" for owner repo
    by (intro ext) (simp add: stargazers_section_def es)
  have fs: "forkers_section E owner repo inc_f (Some 0) detailed aggressive =
      forkers_section E owner repo inc_f None detailed aggressive" for owner repo
    by (intro ext) (simp add: forkers_section_def ef)
  have er: "extract_repository_info E url inc_s inc_f (Some 0) (Some 0) detailed aggressive c =
     extract_repository_info E url inc_s inc_f None None detailed aggressive c"
    unfolding extract_repository_info_def ss fs by (rule refl)
  have ns: "extract_stargazers E owner repo (Some 0) False aggressive c =
     get_stargazers E owner repo 30 None c"
    by (auto simp: extract_stargazers_def pages_for_def capped_def cap_given_def Let_def
          split: option.splits sum.splits prod.splits)
  have nf: "extract_forkers E owner repo (Some 0) False aggressive c =
     get_forks E owner repo 30 None c"
    by (auto simp: extract_forkers_def pages_for_def capped_def cap_given_def Let_def
          split: option.splits sum.splits prod.splits)
  have w: "\<exists>new. calls c' = calls c @ new \<and> new \<noteq> [] \<and>
             ends_walk (page_users E) (snd (last new)) \<and>
             list_all (\<lambda>res. \<not> ends_walk (page_users E) res) (butlast (map snd new)) \<and>
             map fst new = map (page_request endpoint per_page) [1..int (length new)] \<and>
             r = collected (page_users E) (map snd new)"
    if run: "paginate_users E endpoint per_page (Some 0) c = Some (r, c')"
  proof -
    obtain new where n: "calls c' = calls c @ new"
        "walk_trace (page_users E) endpoint per_page (Some 0) 1 new"
        "r = with_users [] (collected (page_users E) (map snd new))"
      using paginate_users_loop_walk[OF run[unfolded paginate_users_def]] by auto
    have r: "r = collected (page_users E) (map snd new)"
      using n(3) by (simp add: with_users_def split: sum.splits)
    have q: "map fst new = map (page_request endpoint per_page) [1..int (length new)]"
      using walk_requests[OF n(2)] by simp
    have e: "new \<noteq> [] \<and> ends_walk (page_users E) (snd (last new))"
      using walk_stop_reason[OF n(2)] by (simp add: limit_passed_def)
    show ?thesis
      using n(1) e walk_no_early_stop[OF n(2)] q r by blast
  qed
  show ?thesis using p s f es ef er ns nf w by blast
qed

theorem zero_cap_is_no_cap_witness:
  "extract_stargazers sample_env ''octocat'' ''hello'' (Some 0) False True start =
     Some (Inr [sample_user ''alice'', sample_user ''bob'', sample_user ''carol''],
           \<lparr>world = 3,
            calls = [(page_request stargazers_endpoint 30 1,
                      Inr (JList [list_item ''alice'', list_item ''bob''])),
                     (page_request stargazers_endpoint 30 2,
                      Inr (JList [list_item ''carol''])),
                     (page_request stargazers_endpoint 30 3, Inr (JList []))]\<rparr>) \<and>
   ends_walk (page_users sample_env) (Inr (JList []))"
proof -
  let ?us = "[sample_user ''alice'', sample_user ''bob'', sample_user ''carol'']"
  let ?new = "[(page_request stargazers_endpoint 30 1,
                      Inr (JList [list_item ''alice'', list_item ''bob''])),
                     (page_request stargazers_endpoint 30 2,
                      Inr (JList [list_item ''carol''])),
                     (page_request stargazers_endpoint 30 3, Inr (JList []))]"
  let ?c3 = "\<lparr>world = (3::nat), calls = ?new\<rparr>"
  note T = zero_cap_is_no_cap [of sample_env stargazers_endpoint 30 start "''octocat''" "''hello''"
      False True "''octocat/hello''" True True "Inr ?us" ?c3]
  have run0: "paginate_users sample_env stargazers_endpoint 30 (Some 0) start = Some (Inr ?us, ?c3)"
    by (rule sample_stargazers_unbounded) simp
  have runN: "get_stargazers sample_env ''octocat'' ''hello'' 30 None start = Some (Inr ?us, ?c3)"
    using sample_stargazers_unbounded[of None]
    by (simp add: get_stargazers_def stargazers_endpoint_def)
  have "extract_stargazers sample_env ''octocat'' ''hello'' (Some 0) False True start =
      get_stargazers sample_env ''octocat'' ''hello'' 30 None start"
    using T by blast
  then have a: "extract_stargazers sample_env ''octocat'' ''hello'' (Some 0) False True start =
      Some (Inr ?us, ?c3)"
    unfolding runN .
  obtain new where n: "calls ?c3 = calls start @ new" "new \<noteq> []"
      "ends_walk (page_users sample_env) (snd (last new))"
    using T run0 by blast
  have "new = ?new" using n(1) by (simp add: start_def)
  then have b: "ends_walk (page_users sample_env) (Inr (JList []))"
    using n(3) by simp
  show ?thesis using a b by blast
qed


section \<open>The fork walk and the user walk\<close>

lemma owner_stream_sel:
  "time_now (owner_stream E) = time_now E"
  "coerce_str (owner_stream E) = coerce_str E"
  "coerce_int (owner_stream E) = coerce_int E"
  "parse_datetime (owner_stream E) = parse_datetime E"
  "session_get (owner_stream E) w rq = (owners_reply (fst (session_get E w rq)), snd (session_get E w rq))"
  by (simp_all add: owner_stream_def case_prod_beta)

lemma UserInfo_owner_stream: "UserInfo (owner_stream E) kw = UserInfo E kw"
  by (simp add: UserInfo_def req_str_def opt_str_def dflt_int_def opt_datetime_def
        str_field_def int_field_def owner_stream_sel cong: option.case_cong json.case_cong)

lemma minimal_user_owner_stream: "minimal_user (owner_stream E) = minimal_user E"
  by (intro ext) (simp add: minimal_user_def err_bind_def UserInfo_owner_stream
        cong: sum.case_cong)

lemma page_users_owner_stream: "page_users (owner_stream E) = page_users E"
  by (intro ext) (simp add: page_users_def minimal_user_owner_stream)

lemma classify_owners:
  "classify endpoint t (owners_reply rep) = owners_result (classify endpoint t rep)"
  by (cases rep)
     (auto simp: classify_def owners_reply_def owners_result_def rate_limit_reset_def
        split: sum.splits option.splits)

lemma make_request_owner_stream:
  assumes "make_request E endpoint params c = (res, c1)" "world d = world c"
  shows "make_request (owner_stream E) endpoint params d =
           (owners_result res,
            \<lparr>world = world c1,
             calls = calls d @ [(\<lparr>req_endpoint = endpoint, req_params = params\<rparr>, owners_result res)]\<rparr>)"
  using assms
  by (auto simp: make_request_def Let_def owner_stream_sel classify_owners split: prod.splits)

lemma truthy_owners_page: "truthy (owners_page data) = truthy data"
  by (cases data) (auto simp: owners_page_def)

lemma minimal_user_JNull: "isl (minimal_user E JNull)"
  by (simp add: minimal_user_def err_bind_def)

lemma project_owners:
  "same_records
     (project_all (\<lambda>fork. err_bind (py_index fork ''owner'') (minimal_user E)) items)
     (project_all (minimal_user E) (map owner_of items))"
proof -
  define f where "f = (\<lambda>fork. err_bind (py_index fork ''owner'') (minimal_user E))"
  have "same_records (project_all f items) (project_all (minimal_user E) (map owner_of items))"
  proof (induction items)
    case Nil
    then show ?case by (simp add: same_records_def)
  next
    case (Cons fork rest)
    show ?case
    proof (cases "py_index fork ''owner''")
      case (Inl e)
      then have "f fork = Inl e" "owner_of fork = JNull"
        by (simp_all add: f_def err_bind_def owner_of_def)
      then show ?thesis
        using minimal_user_JNull[of E]
        by (auto simp: same_records_def isl_def)
    next
      case (Inr ow)
      then have h: "f fork = minimal_user E ow" "owner_of fork = ow"
        by (simp_all add: f_def err_bind_def owner_of_def)
      show ?thesis
        using Cons
        by (cases "minimal_user E ow"; cases "project_all f rest";
            cases "project_all (minimal_user E) (map owner_of rest)")
           (auto simp: same_records_def h)
    qed
  qed
  then show ?thesis by (simp add: f_def)
qed

lemma page_owners:
  "same_records (page_fork_owners E data) (page_users E (owners_page data))"
proof (cases "py_iter data")
  case (Inl e)
  then show ?thesis
    by (simp add: page_fork_owners_def page_users_def owners_page_def err_bind_def
          same_records_def)
next
  case (Inr items)
  then show ?thesis
    using project_owners[of E items]
    by (simp add: page_fork_owners_def page_users_def owners_page_def err_bind_def)
qed

lemma paired_refl: "paired c c c"
  by (simp add: paired_def)

lemma paired_step:
  assumes p: "paired c0 c d" and m: "make_request E endpoint params c = (res, c1)"
  shows "\<exists>d1. make_request (owner_stream E) endpoint params d = (owners_result res, d1) \<and>
           paired c0 c1 d1"
proof -
  let ?rq = "\<lparr>req_endpoint = endpoint, req_params = params\<rparr>"
  let ?d1 = "\<lparr>world = world c1, calls = calls d @ [(?rq, owners_result res)]\<rparr>"
  have w: "world d = world c" using p by (simp add: paired_def)
  have md: "make_request (owner_stream E) endpoint params d = (owners_result res, ?d1)"
    using make_request_owner_stream[OF m w] .
  have l: "calls c1 = calls c @ [(?rq, res)]" using make_request_log(1)[OF m] .
  have t: "take (length (calls c0)) (calls c) = calls c0" using p by (simp add: paired_def)
  have "length (take (length (calls c0)) (calls c)) = length (calls c0)"
    using t by simp
  then have n: "length (calls c0) \<le> length (calls c)"
    by simp
  have "paired c0 c1 ?d1"
    using p n by (simp add: paired_def l)
  then show ?thesis using md by blast
qed

lemma forks_then_users:
  assumes "get_forks_loop E endpoint per_page max_pages page users c = Some y"
  shows "\<forall>d. paired c0 c d \<longrightarrow>
           (\<exists>y'. paginate_users_loop (owner_stream E) endpoint per_page max_pages page users d = Some y' \<and>
                 same_records (fst y) (fst y') \<and> paired c0 (snd y) (snd y'))"
proof (induct rule: get_forks_loop.raw_induct [OF _ assms])
  case (1 loop E endpoint per_page max_pages page users c y)
  show ?case
  proof (intro allI impI)
    fix d assume p: "paired c0 c d"
    let ?goal = "\<exists>y'. paginate_users_loop (owner_stream E) endpoint per_page max_pages page users d = Some y' \<and>
                 same_records (fst y) (fst y') \<and> paired c0 (snd y) (snd y')"
    show ?goal
    proof (cases "limit_passed max_pages page")
      case True
      then have "y = (Inr users, c)" using 1(2) by simp
      moreover have "paginate_users_loop (owner_stream E) endpoint per_page max_pages page users d =
          Some (Inr users, d)"
        using True by (subst paginate_users_loop.simps) simp
      ultimately show ?thesis using p by (simp add: same_records_def)
    next
      case False
      obtain res c1 where m: "make_request E endpoint (page_params page per_page) c = (res, c1)"
        by (cases "make_request E endpoint (page_params page per_page) c") auto
      obtain d1 where md: "make_request (owner_stream E) endpoint (page_params page per_page) d =
          (owners_result res, d1)" and p1: "paired c0 c1 d1"
        using paired_step[OF p m] by blast
      show ?thesis
      proof (cases res)
        case (Inl e)
        then have "y = (Inl e, c1)" using 1(2) False m by simp
        moreover have "paginate_users_loop (owner_stream E) endpoint per_page max_pages page users d =
            Some (Inl e, d1)"
          using False md Inl by (subst paginate_users_loop.simps) (simp add: owners_result_def)
        ultimately show ?thesis using p1 by (simp add: same_records_def)
      next
        case (Inr data)
        have md': "make_request (owner_stream E) endpoint (page_params page per_page) d =
            (Inr (owners_page data), d1)"
          using md Inr by (simp add: owners_result_def)
        show ?thesis
        proof (cases "truthy data")
          case nt: False
          then have "y = (Inr users, c1)" using 1(2) False m Inr by simp
          moreover have "paginate_users_loop (owner_stream E) endpoint per_page max_pages page users d =
              Some (Inr users, d1)"
            using False md' nt
            by (subst paginate_users_loop.simps) (simp add: truthy_owners_page)
          ultimately show ?thesis using p1 by (simp add: same_records_def)
        next
          case t: True
          note s = page_owners[of E data]
          show ?thesis
          proof (cases "page_fork_owners E data")
            case e: (Inl e)
            then obtain e' where e': "page_users E (owners_page data) = Inl e'"
              using s by (cases "page_users E (owners_page data)") (auto simp: same_records_def)
            have "y = (Inl e, c1)" using 1(2) False m Inr t e by simp
            moreover have "paginate_users_loop (owner_stream E) endpoint per_page max_pages page users d =
                Some (Inl e', d1)"
              using False md' t e'
              by (subst paginate_users_loop.simps)
                 (simp add: truthy_owners_page page_users_owner_stream)
            ultimately show ?thesis using p1 by (simp add: same_records_def)
          next
            case us: (Inr us)
            then have us': "page_users E (owners_page data) = Inr us"
              using s by (simp add: same_records_def)
            have "loop E endpoint per_page max_pages (page + 1) (users @ us) c1 = Some y"
              using 1(2) False m Inr t us by simp
            then obtain y' where y': "paginate_users_loop (owner_stream E) endpoint per_page max_pages
                  (page + 1) (users @ us) d1 = Some y'"
              "same_records (fst y) (fst y')" "paired c0 (snd y) (snd y')"
              using 1(1) p1 by blast
            have "paginate_users_loop (owner_stream E) endpoint per_page max_pages page users d =
                paginate_users_loop (owner_stream E) endpoint per_page max_pages
                  (page + 1) (users @ us) d1"
              using False md' t us'
              by (subst paginate_users_loop.simps)
                 (simp add: truthy_owners_page page_users_owner_stream)
            then show ?thesis using y' by simp
          qed
        qed
      qed
    qed
  qed
qed

lemma users_then_forks:
  assumes "paginate_users_loop E' endpoint per_page max_pages page users d = Some y'"
  shows "E' = owner_stream E \<longrightarrow> (\<forall>c. paired c0 c d \<longrightarrow>
           (\<exists>y. get_forks_loop E endpoint per_page max_pages page users c = Some y \<and>
                same_records (fst y) (fst y') \<and> paired c0 (snd y) (snd y')))"
proof (induct rule: paginate_users_loop.raw_induct [OF _ assms])
  case (1 loop E' endpoint per_page max_pages page users d y')
  show ?case
  proof (intro allI impI)
    fix c assume E': "E' = owner_stream E" and p: "paired c0 c d"
    let ?goal = "\<exists>y. get_forks_loop E endpoint per_page max_pages page users c = Some y \<and>
                same_records (fst y) (fst y') \<and> paired c0 (snd y) (snd y')"
    show ?goal
    proof (cases "limit_passed max_pages page")
      case True
      then have "y' = (Inr users, d)" using 1(2) by simp
      moreover have "get_forks_loop E endpoint per_page max_pages page users c = Some (Inr users, c)"
        using True by (subst get_forks_loop.simps) simp
      ultimately show ?thesis using p by (simp add: same_records_def)
    next
      case False
      obtain res c1 where m: "make_request E endpoint (page_params page per_page) c = (res, c1)"
        by (cases "make_request E endpoint (page_params page per_page) c") auto
      obtain d1 where md: "make_request E' endpoint (page_params page per_page) d =
          (owners_result res, d1)" and p1: "paired c0 c1 d1"
        using paired_step[OF p m] E' by blast
      show ?thesis
      proof (cases res)
        case (Inl e)
        then have "y' = (Inl e, d1)" using 1(2) False md by (simp add: owners_result_def)
        moreover have "get_forks_loop E endpoint per_page max_pages page users c = Some (Inl e, c1)"
          using False m Inl by (subst get_forks_loop.simps) simp
        ultimately show ?thesis using p1 by (simp add: same_records_def)
      next
        case (Inr data)
        have md': "make_request E' endpoint (page_params page per_page) d =
            (Inr (owners_page data), d1)"
          using md Inr by (simp add: owners_result_def)
        show ?thesis
        proof (cases "truthy data")
          case nt: False
          then have "y' = (Inr users, d1)"
            using 1(2) False md' by (simp add: truthy_owners_page)
          moreover have "get_forks_loop E endpoint per_page max_pages page users c =
              Some (Inr users, c1)"
            using False m Inr nt by (subst get_forks_loop.simps) simp
          ultimately show ?thesis using p1 by (simp add: same_records_def)
        next
          case t: True
          note s = page_owners[of E data]
          have pu: "page_users E' = page_users E"
            using E' by (simp add: page_users_owner_stream)
          show ?thesis
          proof (cases "page_fork_owners E data")
            case e: (Inl e)
            then obtain e' where e': "page_users E (owners_page data) = Inl e'"
              using s by (cases "page_users E (owners_page data)") (auto simp: same_records_def)
            have "y' = (Inl e', d1)"
              using 1(2) False md' t e' by (simp add: truthy_owners_page pu)
            moreover have "get_forks_loop E endpoint per_page max_pages page users c =
                Some (Inl e, c1)"
              using False m Inr t e by (subst get_forks_loop.simps) simp
            ultimately show ?thesis using p1 by (simp add: same_records_def)
          next
            case us: (Inr us)
            then have us': "page_users E (owners_page data) = Inr us"
              using s by (simp add: same_records_def)
            have "loop E' endpoint per_page max_pages (page + 1) (users @ us) d1 = Some y'"
              using 1(2) False md' t us' by (simp add: truthy_owners_page pu)
            then obtain y where y: "get_forks_loop E endpoint per_page max_pages
                  (page + 1) (users @ us) c1 = Some y"
              "same_records (fst y) (fst y')" "paired c0 (snd y) (snd y')"
              using 1(1) p1 E' by blast
            have "get_forks_loop E endpoint per_page max_pages page users c =
                get_forks_loop E endpoint per_page max_pages (page + 1) (users @ us) c1"
              using False m Inr t us by (subst get_forks_loop.simps) simp
            then show ?thesis using y by simp
          qed
        qed
      qed
    qed
  qed
qed

lemma forks_walk_is_users_walk:
  "walks_agree c
     (get_forks_loop E endpoint per_page max_pages page users c)
     (paginate_users_loop (owner_stream E) endpoint per_page max_pages page users c)"
proof (cases "get_forks_loop E endpoint per_page max_pages page users c")
  case (Some y)
  then show ?thesis
    using forks_then_users[OF Some, of c] paired_refl[of c]
    by (auto simp: walks_agree_def)
next
  case None
  show ?thesis
  proof (cases "paginate_users_loop (owner_stream E) endpoint per_page max_pages page users c")
    case n: None
    then show ?thesis using None by (simp add: walks_agree_def)
  next
    case (Some y')
    then show ?thesis
      using users_then_forks[OF Some, of E c] paired_refl[of c] None by auto
  qed
qed

lemma minimal_user_three_keys:
  assumes "map_of kvs ''login'' = map_of kvs' ''login''"
    "map_of kvs ''avatar_url'' = map_of kvs' ''avatar_url''"
    "map_of kvs ''html_url'' = map_of kvs' ''html_url''"
  shows "minimal_user E (JDict kvs) = minimal_user E (JDict kvs')"
  using assms by (simp add: minimal_user_def)

lemma kwargs_three:
  "kwargs [(k1, r1), (k2, r2), (k3, r3)] = Inr kw \<Longrightarrow>
     \<exists>v1 v2 v3. kw = [(k1, v1), (k2, v2), (k3, v3)]"
  by (cases r1; cases r2; cases r3) auto

lemma minimal_user_defaults:
  assumes "minimal_user E d = Inr u"
  shows "user_name u = None \<and> user_email u = None \<and> user_location u = None \<and>
         user_company u = None \<and> user_bio u = None \<and> user_blog u = None \<and>
         user_twitter_username u = None \<and> user_public_repos u = 0 \<and> user_followers u = 0 \<and>
         user_following u = 0 \<and> user_created_at u = None \<and> user_updated_at u = None"
proof -
  obtain kw where kw: "kwargs [(''login'', py_index d ''login''),
           (''avatar_url'', py_index d ''avatar_url''),
           (''html_url'', py_index d ''html_url'')] = Inr kw" and u: "UserInfo E kw = Inr u"
    using assms by (auto simp: minimal_user_def err_bind_def split: sum.splits)
  obtain v1 v2 v3 where "kw = [(''login'', v1), (''avatar_url'', v2), (''html_url'', v3)]"
    using kwargs_three[OF kw] by blast
  then show ?thesis
    using u
    by (auto simp: UserInfo_def Let_def opt_str_def dflt_int_def opt_datetime_def
          split: if_splits)
qed

text \<open>
  Claim C9.  Against any server and from any state, \<open>get_forks\<close> and the generic paginator run
  on the stream of the nested \<open>owner\<close> objects, with the same page size and ceiling, either
  both do not return, or both return: with the same records in the same order (or both with
  a failure), in the same world, after the same requests.  Page by page, the records read
  from the owners of the fork entries are those the generic projection reads from the owner
  objects.  A minimal record depends on \<open>login\<close>, \<open>avatar_url\<close> and \<open>html_url\<close> of its object
  only, and every other field has its default.
\<close>

theorem get_forks_is_paginate_on_owners:
  "walks_agree c
     (get_forks E owner repo per_page max_pages c)
     (paginate_users (owner_stream E) (''/repos/'' @ owner @ ''/'' @ repo @ ''/forks'')
        per_page max_pages c) \<and>
   same_records (page_fork_owners E data) (page_users E (owners_page data)) \<and>
   (map_of kvs ''login'' = map_of kvs' ''login'' \<and>
    map_of kvs ''avatar_url'' = map_of kvs' ''avatar_url'' \<and>
    map_of kvs ''html_url'' = map_of kvs' ''html_url'' \<longrightarrow>
      minimal_user E (JDict kvs) = minimal_user E (JDict kvs')) \<and>
   (minimal_user E d = Inr u \<longrightarrow>
      user_name u = None \<and> user_email u = None \<and> user_location u = None \<and>
      user_company u = None \<and> user_bio u = None \<and> user_blog u = None \<and>
      user_twitter_username u = None \<and> user_public_repos u = 0 \<and> user_followers u = 0 \<and>
      user_following u = 0 \<and> user_created_at u = None \<and> user_updated_at u = None)"
proof -
  have 1: "walks_agree c
     (get_forks E owner repo per_page max_pages c)
     (paginate_users (owner_stream E) (''/repos/'' @ owner @ ''/'' @ repo @ ''/forks'')
        per_page max_pages c)"
    unfolding get_forks_def paginate_users_def by (rule forks_walk_is_users_walk)
  show ?thesis
    using 1 page_owners[of E data] minimal_user_three_keys[of kvs kvs' E]
      minimal_user_defaults[of E d u]
    by blast
qed

lemma sample_forks:
  "get_forks sample_env ''octocat'' ''hello'' 30 None start =
     Some (Inr [sample_user ''dave''],
           \<lparr>world = 2,
            calls = [(page_request forks_endpoint 30 1,
                      Inr (JList [JDict [(''owner'', list_item ''dave'')]])),
                     (page_request forks_endpoint 30 2, Inr (JList []))]\<rparr>)"
  by (simp add: get_forks_def get_forks_loop.simps limit_passed_def page_params_def
        sample_simps page_fork_owners_def minimal_sample page_request_def forks_endpoint_def)

theorem get_forks_is_paginate_on_owners_witness:
  "map_option fst (get_forks sample_env ''octocat'' ''hello'' 30 None start) =
     Some (Inr [sample_user ''dave'']) \<and>
   map_option fst (paginate_users (owner_stream sample_env) forks_endpoint 30 None start) =
     Some (Inr [sample_user ''dave'']) \<and>
   user_email (sample_user ''dave'') = None \<and>
   minimal_user sample_env (JDict [(''login'', JStr ''dave''), (''avatar_url'', JStr ''dave.png''),
                                   (''html_url'', JStr ''dave''), (''id'', JInt 7)]) =
     Inr (sample_user ''dave'')"
proof -
  let ?kvs = "[(''login'', JStr ''dave''), (''avatar_url'', JStr ''dave.png''),
               (''html_url'', JStr ''dave'')]"
  let ?kvs' = "[(''login'', JStr ''dave''), (''avatar_url'', JStr ''dave.png''),
               (''html_url'', JStr ''dave''), (''id'', JInt 7)]"
  note T = get_forks_is_paginate_on_owners [of start sample_env "''octocat''" "''hello''" 30 None
      "JList []" ?kvs ?kvs' "list_item ''dave''" "sample_user ''dave''"]
  have a: "map_option fst (get_forks sample_env ''octocat'' ''hello'' 30 None start) =
     Some (Inr [sample_user ''dave''])"
    by (simp add: sample_forks)
  have "walks_agree start (get_forks sample_env ''octocat'' ''hello'' 30 None start)
      (paginate_users (owner_stream sample_env) forks_endpoint 30 None start)"
    using T by (simp add: forks_endpoint_def)
  then have b: "map_option fst (paginate_users (owner_stream sample_env) forks_endpoint 30 None start) =
     Some (Inr [sample_user ''dave''])"
    unfolding sample_forks
    by (cases "paginate_users (owner_stream sample_env) forks_endpoint 30 None start")
       (auto simp: walks_agree_def same_records_def)
  have k: "map_of ?kvs ''login'' = map_of ?kvs' ''login'' \<and>
    map_of ?kvs ''avatar_url'' = map_of ?kvs' ''avatar_url'' \<and>
    map_of ?kvs ''html_url'' = map_of ?kvs' ''html_url''"
    by simp
  have "minimal_user sample_env (JDict ?kvs) = minimal_user sample_env (JDict ?kvs')"
    using T k by blast
  then have c: "minimal_user sample_env (JDict ?kvs') = Inr (sample_user ''dave'')"
    using minimal_sample[of sample_env "''dave''"] by (simp add: list_item_def)
  have m: "minimal_user sample_env (list_item ''dave'') = Inr (sample_user ''dave'')"
    by (rule minimal_sample)
  have e: "user_email (sample_user ''dave'') = None"
    using T m by blast
  show ?thesis using a b c e by blast
qed


section \<open>Caps, order and totals of an extraction\<close>




lemma detailed_users_rel:
  "detailed_users E aggressive us c = (ds, c') \<Longrightarrow>
     list_all2 (\<lambda>m d. d = m \<or> (\<exists>s s'. get_user_info E (user_login m) aggressive s = (Inr d, s')))
       us ds"
proof (induction us arbitrary: c ds c')
  case Nil
  then show ?case by simp
next
  case (Cons u rest)
  obtain r c1 where g: "get_user_info E (user_login u) aggressive c = (r, c1)"
    by (cases "get_user_info E (user_login u) aggressive c") auto
  obtain ds' c2 where d: "detailed_users E aggressive rest c1 = (ds', c2)"
    by (cases "detailed_users E aggressive rest c1") auto
  note IH = Cons.IH[OF d]
  show ?case
  proof (cases r)
    case (Inl e)
    then have "ds = u # ds'" using Cons.prems g d by simp
    then show ?thesis using IH by simp
  next
    case (Inr du)
    then have "ds = du # ds'" using Cons.prems g d by simp
    then show ?thesis using IH g Inr by auto
  qed
qed

lemma detailed_users_length:
  "length (fst (detailed_users E aggressive us c)) = length us"
proof -
  obtain ds c' where d: "detailed_users E aggressive us c = (ds, c')"
    by (cases "detailed_users E aggressive us c") auto
  have "length us = length ds"
    using detailed_users_rel[OF d] by (rule list_all2_lengthD)
  then show ?thesis using d by simp
qed











lemma stargazers_section_cases:
  assumes "stargazers_section E owner repo inc max_s detailed aggressive res c = Some (res', c')"
  shows "res' = res \<or>
     (\<exists>us. inc \<and> extract_stargazers E owner repo max_s detailed aggressive c = Some (Inr us, c') \<and>
           res' = res\<lparr>result_stargazers := us\<rparr>)"
  using assms
  by (auto simp: stargazers_section_def split: if_splits option.splits sum.splits prod.splits)

lemma forkers_section_cases:
  assumes "forkers_section E owner repo inc max_f detailed aggressive res c = Some (res', c')"
  shows "res' = res \<or>
     (\<exists>us. inc \<and> extract_forkers E owner repo max_f detailed aggressive c = Some (Inr us, c') \<and>
           res' = res\<lparr>result_forkers := us\<rparr>)"
  using assms
  by (auto simp: forkers_section_def split: if_splits option.splits sum.splits prod.splits)

lemma extract_repository_info_Inr:
  assumes "extract_repository_info E url inc_s inc_f max_s max_f detailed aggressive c =
             Some (Inr res, c')"
  shows "\<exists>owner repo ri c0 res1 c1.
           parse_repo_identifier url = Inr (owner, repo) \<and>
           get_repository_info E owner repo c = (Inr ri, c0) \<and>
           stargazers_section E owner repo inc_s max_s detailed aggressive (ExtractionResult ri) c0 =
             Some (res1, c1) \<and>
           forkers_section E owner repo inc_f max_f detailed aggressive res1 c1 = Some (res, c')"
  using assms
  by (auto simp: extract_repository_info_def Let_def
        split: sum.splits prod.splits option.splits)



lemmas extraction_simps =
  extract_repository_info_def stargazers_section_def forkers_section_def
  extract_stargazers_def extract_forkers_def get_stargazers_def get_forks_def
  pages_for_def capped_def cap_given_def py_take_def
  get_forks_loop.simps page_fork_owners_def








section \<open>Which failures end an extraction\<close>

lemma repository_failure_is_fatal:
  assumes "parse_repo_identifier url = Inr (owner, repo)"
    "get_repository_info E owner repo c = (Inl e, c0)"
  shows "extract_repository_info E url inc_s inc_f max_s max_f detailed aggressive c =
           Some (Inl e, c0)"
  using assms by (simp add: extract_repository_info_def)

lemma report_has_repository:
  assumes "extract_repository_info E url inc_s inc_f max_s max_f detailed aggressive c =
             Some (Inr res, cr)"
  shows "\<exists>ow rp c0. parse_repo_identifier url = Inr (ow, rp) \<and>
           get_repository_info E ow rp c = (Inr (result_repository res), c0)"
proof -
  obtain ow rp ri c0 res1 c1 where p: "parse_repo_identifier url = Inr (ow, rp)"
    and g: "get_repository_info E ow rp c = (Inr ri, c0)"
    and s: "stargazers_section E ow rp inc_s max_s detailed aggressive (ExtractionResult ri) c0 =
             Some (res1, c1)"
    and f: "forkers_section E ow rp inc_f max_f detailed aggressive res1 c1 = Some (res, cr)"
    using extract_repository_info_Inr[OF assms] by blast
  have "result_repository res = ri"
    using stargazers_section_cases[OF s] forkers_section_cases[OF f]
    by (auto simp: ExtractionResult_def)
  then show ?thesis using p g by blast
qed

lemma stargazers_failure_is_caught:
  assumes p: "parse_repo_identifier url = Inr (owner, repo)"
    and g: "get_repository_info E owner repo c = (Inr ri, c0)"
    and i: "inc_s"
    and x: "extract_stargazers E owner repo max_s detailed aggressive c0 = Some (Inl e, c1)"
  shows "extract_repository_info E url inc_s inc_f max_s max_f detailed aggressive c =
           (case forkers_section E owner repo inc_f max_f detailed aggressive
                   (ExtractionResult ri) c1 of
              None \<Rightarrow> None
            | Some (res2, c2) \<Rightarrow> Some (Inr res2, c2))"
    and "extract_repository_info E url inc_s inc_f max_s max_f detailed aggressive c =
           Some (Inr res, cr) \<longrightarrow> result_stargazers res = [] \<and> result_repository res = ri"
proof -
  have s: "stargazers_section E owner repo inc_s max_s detailed aggressive (ExtractionResult ri) c0 =
      Some (ExtractionResult ri, c1)"
    using i x by (simp add: stargazers_section_def)
  show 1: "extract_repository_info E url inc_s inc_f max_s max_f detailed aggressive c =
           (case forkers_section E owner repo inc_f max_f detailed aggressive
                   (ExtractionResult ri) c1 of
              None \<Rightarrow> None
            | Some (res2, c2) \<Rightarrow> Some (Inr res2, c2))"
    using p g s by (simp add: extract_repository_info_def)
  show "extract_repository_info E url inc_s inc_f max_s max_f detailed aggressive c =
           Some (Inr res, cr) \<longrightarrow> result_stargazers res = [] \<and> result_repository res = ri"
  proof
    assume "extract_repository_info E url inc_s inc_f max_s max_f detailed aggressive c =
           Some (Inr res, cr)"
    then have "forkers_section E owner repo inc_f max_f detailed aggressive
                   (ExtractionResult ri) c1 = Some (res, cr)"
      unfolding 1 by (auto split: option.splits)
    from forkers_section_cases[OF this]
    show "result_stargazers res = [] \<and> result_repository res = ri"
      by (auto simp: ExtractionResult_def)
  qed
qed

lemma forkers_failure_is_caught:
  assumes p: "parse_repo_identifier url = Inr (owner, repo)"
    and g: "get_repository_info E owner repo c = (Inr ri, c0)"
    and s: "stargazers_section E owner repo inc_s max_s detailed aggressive (ExtractionResult ri) c0 =
              Some (res1, c1)"
    and i: "inc_f"
    and x: "extract_forkers E owner repo max_f detailed aggressive c1 = Some (Inl e, c2)"
  shows "extract_repository_info E url inc_s inc_f max_s max_f detailed aggressive c =
           Some (Inr res1, c2) \<and> result_forkers res1 = []"
proof -
  have f: "forkers_section E owner repo inc_f max_f detailed aggressive res1 c1 = Some (res1, c2)"
    using i x by (simp add: forkers_section_def)
  have "result_forkers res1 = []"
    using stargazers_section_cases[OF s] by (auto simp: ExtractionResult_def)
  then show ?thesis
    using p g s f by (simp add: extract_repository_info_def)
qed

lemma enrichment_failure_keeps_user:
  assumes "get_user_info E (user_login u) aggressive c = (Inl e, c1)"
  shows "detailed_users E aggressive (u # rest) c =
           (u # fst (detailed_users E aggressive rest c1),
            snd (detailed_users E aggressive rest c1))"
  using assms by (simp add: case_prod_beta)

lemma enrichment_never_aborts:
  assumes "get_stargazers E owner repo 30 (pages_for max_count 30) c = Some (Inr fetched, c1)"
  shows "\<exists>ds cd. extract_stargazers E owner repo max_count True aggressive c = Some (Inr ds, cd) \<and>
           length ds = length (capped max_count fetched)"
proof -
  obtain ds cd where d: "detailed_users E aggressive (capped max_count fetched) c1 = (ds, cd)"
    by (cases "detailed_users E aggressive (capped max_count fetched) c1") auto
  have "length ds = length (capped max_count fetched)"
    using detailed_users_length[of E aggressive "capped max_count fetched" c1] d by simp
  moreover have "extract_stargazers E owner repo max_count True aggressive c = Some (Inr ds, cd)"
    using assms d by (simp add: extract_stargazers_def)
  ultimately show ?thesis by blast
qed

lemma enrichment_never_aborts_forkers:
  assumes "get_forks E owner repo 30 (pages_for max_count 30) c = Some (Inr fetched, c1)"
  shows "\<exists>ds cd. extract_forkers E owner repo max_count True aggressive c = Some (Inr ds, cd) \<and>
           length ds = length (capped max_count fetched)"
proof -
  obtain ds cd where d: "detailed_users E aggressive (capped max_count fetched) c1 = (ds, cd)"
    by (cases "detailed_users E aggressive (capped max_count fetched) c1") auto
  have "length ds = length (capped max_count fetched)"
    using detailed_users_length[of E aggressive "capped max_count fetched" c1] d by simp
  moreover have "extract_forkers E owner repo max_count True aggressive c = Some (Inr ds, cd)"
    using assms d by (simp add: extract_forkers_def)
  ultimately show ?thesis by blast
qed

text \<open>
  Claim C1.  A failure of the repository fetch is the result of the extraction: no report
  is returned.  A report that is returned carries the record that the repository fetch
  returned.  A failure of the stargazer section is caught: the extraction goes on with the
  forker section from the state the failed section left, and a report that results has no
  stargazers and the fetched repository.  A failure of the forker section is caught
  likewise: the report is the one the stargazer section left, with no forkers.  A failure
  of the enrichment of one user leaves the minimal record of that user in its place and
  the loop goes on with the others; the enrichment returns one record for each record it
  was given, so a section whose list was fetched returns a list.
\<close>

theorem extraction_failure_policy:
  "(parse_repo_identifier url = Inr (owner, repo) \<and>
    get_repository_info E owner repo c = (Inl e, c0) \<longrightarrow>
      extract_repository_info E url inc_s inc_f max_s max_f detailed aggressive c =
        Some (Inl e, c0)) \<and>
   (extract_repository_info E url inc_s inc_f max_s max_f detailed aggressive c =
      Some (Inr res, cr) \<longrightarrow>
      (\<exists>ow rp c0. parse_repo_identifier url = Inr (ow, rp) \<and>
           get_repository_info E ow rp c = (Inr (result_repository res), c0))) \<and>
   (parse_repo_identifier url = Inr (owner, repo) \<and>
    get_repository_info E owner repo c = (Inr ri, c0) \<and> inc_s \<and>
    extract_stargazers E owner repo max_s detailed aggressive c0 = Some (Inl e, c1) \<longrightarrow>
      extract_repository_info E url inc_s inc_f max_s max_f detailed aggressive c =
        (case forkers_section E owner repo inc_f max_f detailed aggressive
                (ExtractionResult ri) c1 of
           None \<Rightarrow> None
         | Some (res2, c2) \<Rightarrow> Some (Inr res2, c2)) \<and>
      (extract_repository_info E url inc_s inc_f max_s max_f detailed aggressive c =
         Some (Inr res, cr) \<longrightarrow> result_stargazers res = [] \<and> result_repository res = ri)) \<and>
   (parse_repo_identifier url = Inr (owner, repo) \<and>
    get_repository_info E owner repo c = (Inr ri, c0) \<and>
    stargazers_section E owner repo inc_s max_s detailed aggressive (ExtractionResult ri) c0 =
      Some (res1, c1) \<and> inc_f \<and>
    extract_forkers E owner repo max_f detailed aggressive c1 = Some (Inl e, c2) \<longrightarrow>
      extract_repository_info E url inc_s inc_f max_s max_f detailed aggressive c =
        Some (Inr res1, c2) \<and> result_forkers res1 = []) \<and>
   (get_user_info E (user_login u) aggressive cu = (Inl e, cv) \<longrightarrow>
      detailed_users E aggressive (u # rest) cu =
        (u # fst (detailed_users E aggressive rest cv),
         snd (detailed_users E aggressive rest cv))) \<and>
   length (fst (detailed_users E aggressive us cu)) = length us \<and>
   (get_stargazers E owner repo 30 (pages_for max_count 30) c = Some (Inr fetched, c1) \<longrightarrow>
      (\<exists>ds cd. extract_stargazers E owner repo max_count True aggressive c = Some (Inr ds, cd) \<and>
           length ds = length (capped max_count fetched))) \<and>
   (get_forks E owner repo 30 (pages_for max_count 30) c = Some (Inr fetched, c1) \<longrightarrow>
      (\<exists>ds cd. extract_forkers E owner repo max_count True aggressive c = Some (Inr ds, cd) \<and>
           length ds = length (capped max_count fetched)))"
proof -
  have 1: "parse_repo_identifier url = Inr (owner, repo) \<and>
    get_repository_info E owner repo c = (Inl e, c0) \<longrightarrow>
      extract_repository_info E url inc_s inc_f max_s max_f detailed aggressive c =
        Some (Inl e, c0)"
    using repository_failure_is_fatal by blast
  have 2: "extract_repository_info E url inc_s inc_f max_s max_f detailed aggressive c =
      Some (Inr res, cr) \<longrightarrow>
      (\<exists>ow rp c0. parse_repo_identifier url = Inr (ow, rp) \<and>
           get_repository_info E ow rp c = (Inr (result_repository res), c0))"
    using report_has_repository by blast
  have 3: "parse_repo_identifier url = Inr (owner, repo) \<and>
    get_repository_info E owner repo c = (Inr ri, c0) \<and> inc_s \<and>
    extract_stargazers E owner repo max_s detailed aggressive c0 = Some (Inl e, c1) \<longrightarrow>
      extract_repository_info E url inc_s inc_f max_s max_f detailed aggressive c =
        (case forkers_section E owner repo inc_f max_f detailed aggressive
                (ExtractionResult ri) c1 of
           None \<Rightarrow> None
         | Some (res2, c2) \<Rightarrow> Some (Inr res2, c2)) \<and>
      (extract_repository_info E url inc_s inc_f max_s max_f detailed aggressive c =
         Some (Inr res, cr) \<longrightarrow> result_stargazers res = [] \<and> result_repository res = ri)"
  proof (intro impI)
    assume h: "parse_repo_identifier url = Inr (owner, repo) \<and>
      get_repository_info E owner repo c = (Inr ri, c0) \<and> inc_s \<and>
      extract_stargazers E owner repo max_s detailed aggressive c0 = Some (Inl e, c1)"
    then have p: "parse_repo_identifier url = Inr (owner, repo)"
      and g: "get_repository_info E owner repo c = (Inr ri, c0)"
      and i: inc_s
      and x: "extract_stargazers E owner repo max_s detailed aggressive c0 = Some (Inl e, c1)"
      by simp_all
    show "extract_repository_info E url inc_s inc_f max_s max_f detailed aggressive c =
        (case forkers_section E owner repo inc_f max_f detailed aggressive
                (ExtractionResult ri) c1 of
           None \<Rightarrow> None
         | Some (res2, c2) \<Rightarrow> Some (Inr res2, c2)) \<and>
      (extract_repository_info E url inc_s inc_f max_s max_f detailed aggressive c =
         Some (Inr res, cr) \<longrightarrow> result_stargazers res = [] \<and> result_repository res = ri)"
      by (intro conjI)
         (rule stargazers_failure_is_caught(1)[OF p g i x],
          rule stargazers_failure_is_caught(2)[OF p g i x])
  qed
  have 4: "parse_repo_identifier url = Inr (owner, repo) \<and>
    get_repository_info E owner repo c = (Inr ri, c0) \<and>
    stargazers_section E owner repo inc_s max_s detailed aggressive (ExtractionResult ri) c0 =
      Some (res1, c1) \<and> inc_f \<and>
    extract_forkers E owner repo max_f detailed aggressive c1 = Some (Inl e, c2) \<longrightarrow>
      extract_repository_info E url inc_s inc_f max_s max_f detailed aggressive c =
        Some (Inr res1, c2) \<and> result_forkers res1 = []"
    using forkers_failure_is_caught by blast
  have 5: "get_user_info E (user_login u) aggressive cu = (Inl e, cv) \<longrightarrow>
      detailed_users E aggressive (u # rest) cu =
        (u # fst (detailed_users E aggressive rest cv),
         snd (detailed_users E aggressive rest cv))"
    using enrichment_failure_keeps_user by blast
  have 6: "length (fst (detailed_users E aggressive us cu)) = length us"
    by (rule detailed_users_length)
  have 7: "get_stargazers E owner repo 30 (pages_for max_count 30) c = Some (Inr fetched, c1) \<longrightarrow>
      (\<exists>ds cd. extract_stargazers E owner repo max_count True aggressive c = Some (Inr ds, cd) \<and>
           length ds = length (capped max_count fetched))"
    using enrichment_never_aborts by blast
  have 8: "get_forks E owner repo 30 (pages_for max_count 30) c = Some (Inr fetched, c1) \<longrightarrow>
      (\<exists>ds cd. extract_forkers E owner repo max_count True aggressive c = Some (Inr ds, cd) \<and>
           length ds = length (capped max_count fetched))"
    using enrichment_never_aborts_forkers by blast
  show ?thesis using 1 2 3 4 5 6 7 8 by blast
qed

lemma sample_missing_repository:
  "get_repository_info sample_env ''octocat'' ''missing'' start =
     (Inl (GitHubAPIError (NotFound ''/repos/octocat/missing'')),
      \<lparr>world = 1,
       calls = [(\<lparr>req_endpoint = ''/repos/octocat/missing'', req_params = []\<rparr>,
                 Inl (GitHubAPIError (NotFound ''/repos/octocat/missing'')))]\<rparr>)"
  by (simp add: get_repository_info_def sample_simps)

lemma sample_quiet_repository:
  "get_repository_info sample_env ''octocat'' ''quiet'' start =
     (Inr sample_repo_info,
      \<lparr>world = 1,
       calls = [(\<lparr>req_endpoint = ''/repos/octocat/quiet'', req_params = []\<rparr>, Inr sample_repo)]\<rparr>)"
  by (simp add: get_repository_info_def sample_simps sample_repo_def RepoInfo_def
        req_str_def opt_str_def dflt_int_def opt_datetime_def str_field_def int_field_def
        sample_repo_info_def)

lemma sample_quiet_stargazers:
  "extract_stargazers sample_env ''octocat'' ''quiet'' None False True
     \<lparr>world = 1, calls = cs\<rparr> =
     Some (Inl (GitHubAPIError (NotFound ''/repos/octocat/quiet/stargazers'')),
           \<lparr>world = 2,
            calls = cs @ [(page_request ''/repos/octocat/quiet/stargazers'' 30 1,
                           Inl (GitHubAPIError (NotFound ''/repos/octocat/quiet/stargazers'')))]\<rparr>)"
  by (simp add: extraction_simps walk_simps page_request_def)

lemma sample_quiet_forkers:
  "forkers_section sample_env ''octocat'' ''quiet'' True None False True res
     \<lparr>world = 2, calls = cs\<rparr> =
     Some (res,
           \<lparr>world = 3,
            calls = cs @ [(page_request ''/repos/octocat/quiet/forks'' 30 1,
                           Inl (GitHubAPIError (NotFound ''/repos/octocat/quiet/forks'')))]\<rparr>)"
  by (simp add: extraction_simps walk_simps page_request_def)

lemma sample_bob:
  "get_user_info sample_env ''bob'' True start =
     (Inl (GitHubAPIError (NotFound ''/users/bob'')),
      \<lparr>world = 1,
       calls = [(\<lparr>req_endpoint = ''/users/bob'', req_params = []\<rparr>,
                 Inl (GitHubAPIError (NotFound ''/users/bob'')))]\<rparr>)"
  by (simp add: get_user_info_def sample_simps)

theorem extraction_failure_policy_witness:
  "extract_repository_info sample_env ''octocat/missing'' True True None None False True start =
     Some (Inl (GitHubAPIError (NotFound ''/repos/octocat/missing'')),
           \<lparr>world = 1,
            calls = [(\<lparr>req_endpoint = ''/repos/octocat/missing'', req_params = []\<rparr>,
                      Inl (GitHubAPIError (NotFound ''/repos/octocat/missing'')))]\<rparr>) \<and>
   extract_repository_info sample_env ''octocat/quiet'' True True None None False True start =
     Some (Inr (ExtractionResult sample_repo_info),
           \<lparr>world = 3,
            calls = [(\<lparr>req_endpoint = ''/repos/octocat/quiet'', req_params = []\<rparr>, Inr sample_repo),
                     (page_request ''/repos/octocat/quiet/stargazers'' 30 1,
                      Inl (GitHubAPIError (NotFound ''/repos/octocat/quiet/stargazers''))),
                     (page_request ''/repos/octocat/quiet/forks'' 30 1,
                      Inl (GitHubAPIError (NotFound ''/repos/octocat/quiet/forks'')))]\<rparr>) \<and>
   detailed_users sample_env True [sample_user ''bob''] start =
     ([sample_user ''bob''],
      \<lparr>world = 1,
       calls = [(\<lparr>req_endpoint = ''/users/bob'', req_params = []\<rparr>,
                 Inl (GitHubAPIError (NotFound ''/users/bob'')))]\<rparr>)"
proof -
  let ?e0 = "GitHubAPIError (NotFound ''/repos/octocat/missing'')"
  let ?c0 = "\<lparr>world = (1::nat),
            calls = [(\<lparr>req_endpoint = ''/repos/octocat/missing'', req_params = []\<rparr>, Inl ?e0)]\<rparr>"
  have pm: "parse_repo_identifier ''octocat/missing'' = Inr (''octocat'', ''missing'')"
    by (simp add: parse_repo_identifier_def strip_def is_space_def is_http_url_def)
  have a: "extract_repository_info sample_env ''octocat/missing'' True True None None False True
      start = Some (Inl ?e0, ?c0)"
    using extraction_failure_policy [of "''octocat/missing''" "''octocat''" "''missing''"
        sample_env start ?e0 ?c0 True True None None False True]
      pm sample_missing_repository
    by blast
  let ?q0 = "\<lparr>world = (1::nat),
       calls = [(\<lparr>req_endpoint = ''/repos/octocat/quiet'', req_params = []\<rparr>, Inr sample_repo)]\<rparr>"
  let ?e1 = "GitHubAPIError (NotFound ''/repos/octocat/quiet/stargazers'')"
  let ?q1 = "\<lparr>world = (2::nat),
            calls = [(\<lparr>req_endpoint = ''/repos/octocat/quiet'', req_params = []\<rparr>, Inr sample_repo),
                     (page_request ''/repos/octocat/quiet/stargazers'' 30 1, Inl ?e1)]\<rparr>"
  have pq: "parse_repo_identifier ''octocat/quiet'' = Inr (''octocat'', ''quiet'')"
    by (simp add: parse_repo_identifier_def strip_def is_space_def is_http_url_def)
  have sq: "extract_stargazers sample_env ''octocat'' ''quiet'' None False True ?q0 =
      Some (Inl ?e1, ?q1)"
    using sample_quiet_stargazers by simp
  have "extract_repository_info sample_env ''octocat/quiet'' True True None None False True start =
        (case forkers_section sample_env ''octocat'' ''quiet'' True None False True
                (ExtractionResult sample_repo_info) ?q1 of
           None \<Rightarrow> None
         | Some (res2, c2) \<Rightarrow> Some (Inr res2, c2))"
    using extraction_failure_policy [of "''octocat/quiet''" "''octocat''" "''quiet''"
        sample_env start ?e1 ?q0 True True None None False True _ _ sample_repo_info ?q1]
      pq sample_quiet_repository sq
    by blast
  then have b: "extract_repository_info sample_env ''octocat/quiet'' True True None None False True
      start =
     Some (Inr (ExtractionResult sample_repo_info),
           \<lparr>world = 3,
            calls = [(\<lparr>req_endpoint = ''/repos/octocat/quiet'', req_params = []\<rparr>, Inr sample_repo),
                     (page_request ''/repos/octocat/quiet/stargazers'' 30 1, Inl ?e1),
                     (page_request ''/repos/octocat/quiet/forks'' 30 1,
                      Inl (GitHubAPIError (NotFound ''/repos/octocat/quiet/forks'')))]\<rparr>)"
    by (simp add: sample_quiet_forkers)
  let ?eb = "GitHubAPIError (NotFound ''/users/bob'')"
  let ?cb = "\<lparr>world = (1::nat),
       calls = [(\<lparr>req_endpoint = ''/users/bob'', req_params = []\<rparr>, Inl ?eb)]\<rparr>"
  have gb: "get_user_info sample_env (user_login (sample_user ''bob'')) True start = (Inl ?eb, ?cb)"
    using sample_bob by (simp add: sample_user_def)
  have "detailed_users sample_env True (sample_user ''bob'' # []) start =
        (sample_user ''bob'' # fst (detailed_users sample_env True [] ?cb),
         snd (detailed_users sample_env True [] ?cb))"
    using extraction_failure_policy [where E = sample_env and u = "sample_user ''bob''"
        and aggressive = True and cu = start and e = ?eb and cv = ?cb and rest = "[]"]
      gb
    by blast
  then have c: "detailed_users sample_env True [sample_user ''bob''] start =
      ([sample_user ''bob''], ?cb)"
    by simp
  show ?thesis using a b c by blast
qed


end
